theory Spec2Isabelle
  imports Main "HOL-Library.Word"
begin

unbundle bit_operations_syntax

section \<open>Go runtime primitives used by package mio\<close>

text \<open>
  A goroutine step either succeeds, panics, cannot proceed yet (\<open>Blocked\<close>: it waits on
  a channel or a timer) or does not exist (\<open>Disabled\<close>: no such call is in flight, the
  goroutine has returned).
\<close>

datatype fault = Panic string | Blocked | Disabled

text \<open>
  A channel of \<open>struct{}\<close>: its capacity, the number of buffered elements and whether
  it has been closed. \<open>make(chan struct{})\<close> is \<open>make_chan 0\<close>,
  \<open>make(chan struct{}, 1)\<close> is \<open>make_chan 1\<close>.
\<close>

record chan =
  cap :: nat
  buf :: nat
  is_closed :: bool

definition make_chan :: "nat \<Rightarrow> chan" where
  "make_chan n = \<lparr>cap = n, buf = 0, is_closed = False\<rparr>"

text \<open>\<open>close(ch)\<close>: closing a closed channel panics.\<close>

definition close_chan :: "chan \<Rightarrow> fault + chan" where
  "close_chan ch =
     (if is_closed ch then Inl (Panic ''close of closed channel'')
      else Inr (ch\<lparr>is_closed := True\<rparr>))"

text \<open>
  \<open>select { case ch <- struct{}{}: default: }\<close>, the non-blocking send. It panics on
  a closed channel; it hands the element to a receiver that is parked on the channel;
  otherwise it buffers the element when there is room; otherwise it takes the
  \<open>default\<close> branch and the element is dropped.
\<close>

datatype sent = Delivered | Buffered | Dropped

definition try_send :: "bool \<Rightarrow> chan \<Rightarrow> fault + (sent \<times> chan)" where
  "try_send receiver_parked ch =
     (if is_closed ch then Inl (Panic ''send on closed channel'')
      else if receiver_parked then Inr (Delivered, ch)
      else if buf ch < cap ch then Inr (Buffered, ch\<lparr>buf := buf ch + 1\<rparr>)
      else Inr (Dropped, ch))"

text \<open>
  A \<open>*time.Timer\<close> made by \<open>time.AfterFunc\<close>: it runs until its deadline (in
  nanoseconds), unless \<open>Stop\<close> is called first. \<open>Stop\<close> on a timer that has fired or
  was stopped changes nothing.
\<close>

datatype timer = Running int | Stopped | Fired

fun running :: "timer option \<Rightarrow> bool" where
  "running (Some (Running dl)) = True"
| "running _ = False"

text \<open>\<open>if t != nil { t.Stop() }\<close>\<close>

fun stop_timer :: "timer option \<Rightarrow> timer option" where
  "stop_timer None = None"
| "stop_timer (Some (Running dl)) = Some Stopped"
| "stop_timer (Some x) = Some x"

section \<open>SelfCleaningHistogram\<close>

text \<open>
  Modelled from the spec: the wrapped \<open>Histogram\<close> is an interface whose implementation
  lives outside this repository; the spec describes it as a pool of samples with "insert
  one sample" and "reset (discard all samples)". The pool is the list of samples
  inserted since the last reset, \<open>Count()\<close> its length.
\<close>

type_synonym pool = "int list"

definition Update :: "int \<Rightarrow> pool \<Rightarrow> pool" where
  "Update v p = p @ [v]"

definition Clear :: "pool \<Rightarrow> pool" where
  "Clear p = []"

definition Count :: "pool \<Rightarrow> nat" where
  "Count p = length p"

text \<open>The struct, field by field.\<close>

record SelfCleaningHistogram =
  Histogram :: pool
  c :: chan
  q :: chan
  d :: chan
  closed :: bool
  cnt :: "64 word"

text \<open>
  Where the goroutine running \<open>decay\<close> stands:
  \<^item> \<open>L_select\<close>: about to execute the \<open>select\<close> at the head of the loop;
  \<^item> \<open>L_parked\<close>: parked in that \<open>select\<close>, waiting on \<open>h.c\<close> and \<open>h.q\<close>;
  \<^item> \<open>L_quit\<close>: \<open>case <-h.q\<close> was taken;
  \<^item> \<open>L_stop\<close>: \<open>case <-h.c\<close> was taken, about to stop the timer;
  \<^item> \<open>L_recv_d\<close>: about to execute \<open><-h.d\<close>;
  \<^item> \<open>L_parked_d\<close>: parked in \<open><-h.d\<close>;
  \<^item> \<open>L_arm\<close>: about to execute \<open>t = time.AfterFunc(delay, h.Clear)\<close>;
  \<^item> \<open>L_exited\<close>: returned.
\<close>

datatype loc = L_select | L_parked | L_quit | L_stop | L_recv_d | L_parked_d | L_arm | L_exited

text \<open>
  The whole system: the struct, the \<open>decay\<close> goroutine (its location, its local \<open>t\<close>
  and its argument \<open>delay\<close>), the clock, the calls of \<open>Register\<close> and \<open>Done\<close> that
  have done their atomic add and not yet their send, and the timer callbacks that have
  been started and have not yet run \<open>h.Clear\<close>.
\<close>

record state = SelfCleaningHistogram +
  pc :: loc
  t :: "timer option"
  delay :: int
  now :: int
  reg_inflight :: nat
  done_inflight :: nat
  callbacks :: nat

text \<open>
  \<open>NewSelfCleaningHistogram\<close>: the constructor returns once \<open>decay\<close> has closed
  \<open>guard\<close>, that is with the goroutine in front of its loop.
\<close>

definition NewSelfCleaningHistogram :: "pool \<Rightarrow> int \<Rightarrow> state" where
  "NewSelfCleaningHistogram histogram dl =
     \<lparr>Histogram = histogram, c = make_chan 0, q = make_chan 0, d = make_chan 1,
      closed = False, cnt = 0,
      pc = L_select, t = None, delay = dl, now = 0,
      reg_inflight = 0, done_inflight = 0, callbacks = 0\<rparr>"

subsection \<open>Register, Done, Shutdown\<close>

text \<open>\<open>atomic.AddUint64(&h.cnt, 1)\<close>\<close>

definition reg_add :: "state \<Rightarrow> state" where
  "reg_add s = s\<lparr>cnt := cnt s + 1\<rparr>"

text \<open>
  \<open>select { case h.c <- struct{}{}: default: }\<close>: a receiver is parked on \<open>h.c\<close> exactly
  when \<open>decay\<close> is parked in its \<open>select\<close>; the receive resumes it after \<open>case <-h.c\<close>.
\<close>

definition reg_send :: "state \<Rightarrow> fault + state" where
  "reg_send s =
     (case try_send (pc s = L_parked) (c s) of
        Inl f \<Rightarrow> Inl f
      | Inr (Delivered, ch) \<Rightarrow> Inr (s\<lparr>c := ch, pc := L_stop\<rparr>)
      | Inr (_, ch) \<Rightarrow> Inr (s\<lparr>c := ch\<rparr>))"

definition Register :: "state \<Rightarrow> fault + state" where
  "Register s = reg_send (reg_add s)"

text \<open>\<open>cnt := atomic.AddUint64(&h.cnt, ^uint64(0))\<close>\<close>

definition done_add :: "state \<Rightarrow> state" where
  "done_add s = s\<lparr>cnt := cnt s + NOT 0\<rparr>"

text \<open>
  \<open>select { case h.d <- struct{}{}: default: }\<close>: a receiver is parked on \<open>h.d\<close> exactly
  when \<open>decay\<close> is parked in \<open><-h.d\<close>; the receive resumes it at the next statement.
\<close>

definition done_send :: "state \<Rightarrow> fault + state" where
  "done_send s =
     (case try_send (pc s = L_parked_d) (d s) of
        Inl f \<Rightarrow> Inl f
      | Inr (Delivered, ch) \<Rightarrow> Inr (s\<lparr>d := ch, pc := L_arm\<rparr>)
      | Inr (_, ch) \<Rightarrow> Inr (s\<lparr>d := ch\<rparr>))"

definition Done :: "state \<Rightarrow> fault + state" where
  "Done s = (let s1 = done_add s in if cnt s1 = 0 then done_send s1 else Inr s1)"

text \<open>
  \<open>Shutdown\<close>. Closing \<open>h.q\<close> wakes a \<open>decay\<close> that is parked in its \<open>select\<close>, with
  \<open>case <-h.q\<close> chosen. The flag \<open>closed\<close> is a plain \<open>bool\<close>: calls of \<open>Shutdown\<close> are
  taken one after the other, each as one step.
\<close>

definition Shutdown :: "state \<Rightarrow> fault + state" where
  "Shutdown s =
     (if \<not> closed s then
        (let s1 = s\<lparr>closed := True\<rparr> in
         case close_chan (q s1) of
           Inl f \<Rightarrow> Inl f
         | Inr ch \<Rightarrow> Inr (s1\<lparr>q := ch, pc := (if pc s1 = L_parked then L_quit else pc s1)\<rparr>))
      else Inr s)"

subsection \<open>decay\<close>

text \<open>
  One step of the goroutine. No sender ever waits on \<open>h.c\<close> (\<open>Register\<close> sends without
  blocking), so the \<open>select\<close> finds \<open>h.c\<close> not ready and takes \<open>h.q\<close> if it is closed,
  or parks.
\<close>

definition decay_step :: "state \<Rightarrow> fault + state" where
  "decay_step s =
     (case pc s of
        L_select \<Rightarrow> Inr (s\<lparr>pc := (if is_closed (q s) then L_quit else L_parked)\<rparr>)
      | L_parked \<Rightarrow> Inl Blocked
      | L_quit \<Rightarrow> Inr (s\<lparr>t := stop_timer (t s), pc := L_exited\<rparr>)
      | L_stop \<Rightarrow> Inr (s\<lparr>t := stop_timer (t s), pc := L_recv_d\<rparr>)
      | L_recv_d \<Rightarrow>
          (if 0 < buf (d s) then Inr (s\<lparr>d := (d s)\<lparr>buf := buf (d s) - 1\<rparr>, pc := L_arm\<rparr>)
           else Inr (s\<lparr>pc := L_parked_d\<rparr>))
      | L_parked_d \<Rightarrow> Inl Blocked
      | L_arm \<Rightarrow> Inr (s\<lparr>t := Some (Running (now s + delay s)), pc := L_select\<rparr>)
      | L_exited \<Rightarrow> Inl Disabled)"

text \<open>
  The timer created by \<open>time.AfterFunc(delay, h.Clear)\<close>: once its deadline has passed it
  fires, which starts \<open>h.Clear\<close> in a goroutine of its own; that goroutine then runs.
\<close>

definition timer_fire :: "state \<Rightarrow> fault + state" where
  "timer_fire s =
     (case t s of
        Some (Running dl) \<Rightarrow>
          (if dl \<le> now s then Inr (s\<lparr>t := Some Fired, callbacks := callbacks s + 1\<rparr>)
           else Inl Blocked)
      | _ \<Rightarrow> Inl Disabled)"

definition clear_run :: "state \<Rightarrow> fault + state" where
  "clear_run s =
     (if 0 < callbacks s
      then Inr (s\<lparr>Histogram := Clear (Histogram s), callbacks := callbacks s - 1\<rparr>)
      else Inl Disabled)"

subsection \<open>Interleavings\<close>

text \<open>
  The atomic steps of the system. A call of \<open>Register\<close> is \<open>RegAdd\<close> followed, at any
  later moment, by \<open>RegSend\<close>; a call of \<open>Done\<close> is \<open>DoneAdd\<close> followed by \<open>DoneSend\<close>
  when the add returned zero. \<open>Tick n\<close> lets \<open>n\<close> nanoseconds pass, \<open>Sample v\<close> is a
  call of the promoted \<open>Update(v)\<close>.
\<close>

datatype label =
    RegAdd | RegSend | DoneAdd | DoneSend | ShutdownCall
  | Decay | TimerFire | ClearRun | Tick nat | Sample int

fun step :: "label \<Rightarrow> state \<Rightarrow> fault + state" where
  "step RegAdd s = Inr ((reg_add s)\<lparr>reg_inflight := reg_inflight s + 1\<rparr>)"
| "step RegSend s =
     (if reg_inflight s = 0 then Inl Disabled
      else reg_send (s\<lparr>reg_inflight := reg_inflight s - 1\<rparr>))"
| "step DoneAdd s =
     (let s1 = done_add s in
      if cnt s1 = 0 then Inr (s1\<lparr>done_inflight := done_inflight s + 1\<rparr>) else Inr s1)"
| "step DoneSend s =
     (if done_inflight s = 0 then Inl Disabled
      else done_send (s\<lparr>done_inflight := done_inflight s - 1\<rparr>))"
| "step ShutdownCall s = Shutdown s"
| "step Decay s = decay_step s"
| "step TimerFire s = timer_fire s"
| "step ClearRun s = clear_run s"
| "step (Tick n) s = Inr (s\<lparr>now := now s + int n\<rparr>)"
| "step (Sample v) s = Inr (s\<lparr>Histogram := Update v (Histogram s)\<rparr>)"

fun run :: "label list \<Rightarrow> state \<Rightarrow> fault + state" where
  "run [] s = Inr s"
| "run (l # ls) s = (case step l s of Inl f \<Rightarrow> Inl f | Inr s' \<Rightarrow> run ls s')"


text \<open>
  \<open>Shutdown\<close> called \<open>n\<close> times in a row, and a projection of a result, for stating
  what a run leads to.
\<close>

fun Shutdown_times :: "nat \<Rightarrow> state \<Rightarrow> fault + state" where
  "Shutdown_times 0 s = Inr s"
| "Shutdown_times (Suc n) s =
     (case Shutdown s of Inl f \<Rightarrow> Inl f | Inr s' \<Rightarrow> Shutdown_times n s')"

definition after :: "fault + state \<Rightarrow> (state \<Rightarrow> fault + state) \<Rightarrow> fault + state" where
  "after r f = (case r of Inl e \<Rightarrow> Inl e | Inr s \<Rightarrow> f s)"

definition view :: "(state \<Rightarrow> 'a) \<Rightarrow> fault + state \<Rightarrow> fault + 'a" where
  "view f r = (case r of Inl e \<Rightarrow> Inl e | Inr s \<Rightarrow> Inr (f s))"


subsection \<open>What every reachable state satisfies\<close>

text \<open>The locations of \<open>decay\<close> between stopping the old timer and arming the new one,
  and after its return: no timer runs there.\<close>

fun timerless :: "loc \<Rightarrow> bool" where
  "timerless L_recv_d = True"
| "timerless L_parked_d = True"
| "timerless L_arm = True"
| "timerless L_exited = True"
| "timerless _ = False"

definition inv :: "state \<Rightarrow> bool" where
  "inv s \<longleftrightarrow>
     cap (c s) = 0 \<and> buf (c s) = 0 \<and> \<not> is_closed (c s) \<and>
     cap (d s) = 1 \<and> buf (d s) \<le> 1 \<and> \<not> is_closed (d s) \<and>
     closed s = is_closed (q s) \<and>
     \<not> (is_closed (q s) \<and> pc s = L_parked) \<and>
     \<not> (pc s = L_parked_d \<and> buf (d s) = 1) \<and>
     \<not> (timerless (pc s) \<and> running (t s))"



section \<open>Reader and Writer\<close>

text \<open>A non-nil Go \<open>error\<close>; \<open>nil\<close> is \<open>None\<close>.\<close>

datatype error = Error string

type_synonym byte = "8 word"

text \<open>
  Interface values are method tables over the state of the object behind them
  (\<open>'h\<close> for the histogram, \<open>'s\<close> for the stream); a nil interface is \<open>None\<close>.
  \<open>registrar\<close> is what the type assertion \<open>h.(Registrar)\<close> finds in the dynamic type,
  \<open>Close_m\<close> what \<open>.(io.Closer)\<close> finds.
\<close>

record 'h Registrar =
  Register_m :: "'h \<Rightarrow> 'h"
  Done_m :: "'h \<Rightarrow> 'h"

record 'h Histogram_I =
  Update_m :: "int \<Rightarrow> 'h \<Rightarrow> 'h"
  registrar :: "'h Registrar option"

record 's io_Reader =
  Read_m :: "byte list \<Rightarrow> 's \<Rightarrow> (byte list \<times> int \<times> error option) \<times> 's"
  Close_m :: "('s \<Rightarrow> error option \<times> 's) option"

record 's io_Writer =
  Write_m :: "byte list \<Rightarrow> 's \<Rightarrow> (int \<times> error option) \<times> 's"
  WClose_m :: "('s \<Rightarrow> error option \<times> 's) option"

text \<open>\<open>r, ok := h.(Registrar)\<close>: not ok on a nil interface.\<close>

definition as_Registrar :: "'h Histogram_I option \<Rightarrow> 'h Registrar option" where
  "as_Registrar hi = (case hi of None \<Rightarrow> None | Some m \<Rightarrow> registrar m)"

text \<open>\<open>h.Update(v)\<close>: a method call through a nil interface panics.\<close>

definition call_Update :: "'h Histogram_I option \<Rightarrow> int \<Rightarrow> 'h \<Rightarrow> fault + 'h" where
  "call_Update hi v x =
     (case hi of
        None \<Rightarrow> Inl (Panic ''invalid memory address or nil pointer dereference'')
      | Some m \<Rightarrow> Inr (Update_m m v x))"

text \<open>
  Clock readings are nanoseconds. \<open>u.Sub(v).Nanoseconds()\<close>: \<open>Sub\<close> saturates at the
  bounds of \<open>time.Duration\<close>, an \<open>int64\<close>. \<open>zero_Time\<close> is the zero value of
  \<open>time.Time\<close>.
\<close>

definition Sub :: "int \<Rightarrow> int \<Rightarrow> int" where
  "Sub u v = max (- (2 ^ 63)) (min (2 ^ 63 - 1) (u - v))"

definition zero_Time :: int where
  "zero_Time = 0"

record ('s, 'h) Reader =
  Reader_Reader :: "'s io_Reader"
  Reader_h :: "'h Histogram_I option"
  Reader_closed :: bool

definition NewReader ::
  "'s io_Reader \<Rightarrow> 'h Histogram_I option \<Rightarrow> 'h \<Rightarrow> ('s, 'h) Reader \<times> 'h" where
  "NewReader reader hi x =
     (let mr = \<lparr>Reader_Reader = reader, Reader_h = hi, Reader_closed = False\<rparr> in
      case as_Registrar hi of
        Some r \<Rightarrow> (mr, Register_m r x)
      | None \<Rightarrow> (mr, x))"

text \<open>
  \<open>Read\<close>: \<open>t0\<close> and \<open>t1\<close> are what \<open>time.Now()\<close> returns before and after the
  delegated call.
\<close>

fun Reader_Read ::
  "('s, 'h) Reader \<Rightarrow> byte list \<Rightarrow> int \<Rightarrow> int \<Rightarrow> 's \<times> 'h \<Rightarrow>
   fault + ((byte list \<times> int \<times> error option) \<times> ('s \<times> 'h))" where
  "Reader_Read mr p t0 t1 (s, x) =
     (let start = (if Reader_h mr \<noteq> None then t0 else zero_Time) in
      case Read_m (Reader_Reader mr) p s of ((p', n, err), s') \<Rightarrow>
        if 0 < n \<and> Reader_h mr \<noteq> None then
          (case call_Update (Reader_h mr) (Sub t1 start) x of
             Inl f \<Rightarrow> Inl f
           | Inr x' \<Rightarrow> Inr ((p', n, err), (s', x')))
        else Inr ((p', n, err), (s', x)))"

fun Reader_Close ::
  "('s, 'h) Reader \<Rightarrow> 's \<times> 'h \<Rightarrow> error option \<times> ('s, 'h) Reader \<times> ('s \<times> 'h)" where
  "Reader_Close mr (s, x) =
     (if Reader_closed mr then (None, mr, (s, x))
      else
        let mr1 = mr\<lparr>Reader_closed := True\<rparr>;
            x1 = (case as_Registrar (Reader_h mr1) of Some r \<Rightarrow> Done_m r x | None \<Rightarrow> x)
        in case Close_m (Reader_Reader mr1) of
             Some cl \<Rightarrow> (case cl s of (e, s1) \<Rightarrow> (e, mr1, (s1, x1)))
           | None \<Rightarrow> (None, mr1, (s, x1)))"

record ('s, 'h) Writer =
  Writer_Writer :: "'s io_Writer"
  Writer_h :: "'h Histogram_I option"
  Writer_closed :: bool

definition NewWriter ::
  "'s io_Writer \<Rightarrow> 'h Histogram_I option \<Rightarrow> 'h \<Rightarrow> ('s, 'h) Writer \<times> 'h" where
  "NewWriter writer hi x =
     (let mw = \<lparr>Writer_Writer = writer, Writer_h = hi, Writer_closed = False\<rparr> in
      case as_Registrar hi of
        Some r \<Rightarrow> (mw, Register_m r x)
      | None \<Rightarrow> (mw, x))"

fun Writer_Write ::
  "('s, 'h) Writer \<Rightarrow> byte list \<Rightarrow> int \<Rightarrow> int \<Rightarrow> 's \<times> 'h \<Rightarrow>
   fault + ((int \<times> error option) \<times> ('s \<times> 'h))" where
  "Writer_Write mw p t0 t1 (s, x) =
     (let start = (if Writer_h mw \<noteq> None then t0 else zero_Time) in
      case Write_m (Writer_Writer mw) p s of ((n, err), s') \<Rightarrow>
        if 0 < n \<and> Writer_h mw \<noteq> None then
          (case call_Update (Writer_h mw) (Sub t1 start) x of
             Inl f \<Rightarrow> Inl f
           | Inr x' \<Rightarrow> Inr ((n, err), (s', x')))
        else Inr ((n, err), (s', x)))"

fun Writer_Close ::
  "('s, 'h) Writer \<Rightarrow> 's \<times> 'h \<Rightarrow> error option \<times> ('s, 'h) Writer \<times> ('s \<times> 'h)" where
  "Writer_Close mw (s, x) =
     (if Writer_closed mw then (None, mw, (s, x))
      else
        let mw1 = mw\<lparr>Writer_closed := True\<rparr>;
            x1 = (case as_Registrar (Writer_h mw1) of Some r \<Rightarrow> Done_m r x | None \<Rightarrow> x)
        in case WClose_m (Writer_Writer mw1) of
             Some cl \<Rightarrow> (case cl s of (e, s1) \<Rightarrow> (e, mw1, (s1, x1)))
           | None \<Rightarrow> (None, mw1, (s, x1)))"

text \<open>\<open>Close\<close> called \<open>n\<close> times in a row: the results in order, the wrapper and the
  objects behind it afterwards.\<close>

fun Reader_Close_times ::
  "nat \<Rightarrow> ('s, 'h) Reader \<Rightarrow> 's \<times> 'h \<Rightarrow> error option list \<times> ('s, 'h) Reader \<times> ('s \<times> 'h)" where
  "Reader_Close_times 0 mr w = ([], mr, w)"
| "Reader_Close_times (Suc n) mr w =
     (case Reader_Close mr w of (e, mr1, w1) \<Rightarrow>
      case Reader_Close_times n mr1 w1 of (es, mr2, w2) \<Rightarrow> (e # es, mr2, w2))"

fun Writer_Close_times ::
  "nat \<Rightarrow> ('s, 'h) Writer \<Rightarrow> 's \<times> 'h \<Rightarrow> error option list \<times> ('s, 'h) Writer \<times> ('s \<times> 'h)" where
  "Writer_Close_times 0 mw w = ([], mw, w)"
| "Writer_Close_times (Suc n) mw w =
     (case Writer_Close mw w of (e, mw1, w1) \<Rightarrow>
      case Writer_Close_times n mw1 w1 of (es, mw2, w2) \<Rightarrow> (e # es, mw2, w2))"

text \<open>
  Collaborators that count: a histogram whose state is the list of samples it was given
  and the numbers of \<open>Register\<close> and \<open>Done\<close> calls, a stream whose state is the number
  of \<open>Close\<close> calls and whose transfer returns what it is told to.
\<close>

record tally =
  updates :: "int list"
  registers :: nat
  dones :: nat

definition tally0 :: tally where
  "tally0 = \<lparr>updates = [], registers = 0, dones = 0\<rparr>"

definition tally_Registrar :: "tally Registrar" where
  "tally_Registrar =
     \<lparr>Register_m = (\<lambda>x. x\<lparr>registers := registers x + 1\<rparr>),
      Done_m = (\<lambda>x. x\<lparr>dones := dones x + 1\<rparr>)\<rparr>"

definition tally_Histogram :: "bool \<Rightarrow> tally Histogram_I" where
  "tally_Histogram reg =
     \<lparr>Update_m = (\<lambda>v x. x\<lparr>updates := updates x @ [v]\<rparr>),
      registrar = (if reg then Some tally_Registrar else None)\<rparr>"

definition fixed_Reader :: "int \<times> error option \<Rightarrow> error option option \<Rightarrow> nat io_Reader" where
  "fixed_Reader res cl =
     \<lparr>Read_m = (\<lambda>p k. ((p, res), k)),
      Close_m = (case cl of None \<Rightarrow> None | Some e \<Rightarrow> Some (\<lambda>k. (e, k + 1)))\<rparr>"

definition fixed_Writer :: "int \<times> error option \<Rightarrow> error option option \<Rightarrow> nat io_Writer" where
  "fixed_Writer res cl =
     \<lparr>Write_m = (\<lambda>p k. (res, k)),
      WClose_m = (case cl of None \<Rightarrow> None | Some e \<Rightarrow> Some (\<lambda>k. (e, k + 1)))\<rparr>"

section \<open>Properties\<close>

subsection \<open>The sends and the invariant\<close>

lemma reg_send_eq:
  "reg_send s =
     (if is_closed (c s) then Inl (Panic ''send on closed channel'')
      else if pc s = L_parked then Inr (s\<lparr>pc := L_stop\<rparr>)
      else if buf (c s) < cap (c s) then Inr (s\<lparr>c := (c s)\<lparr>buf := buf (c s) + 1\<rparr>\<rparr>)
      else Inr s)"
  by (simp add: reg_send_def try_send_def)

lemma done_send_eq:
  "done_send s =
     (if is_closed (d s) then Inl (Panic ''send on closed channel'')
      else if pc s = L_parked_d then Inr (s\<lparr>pc := L_arm\<rparr>)
      else if buf (d s) < cap (d s) then Inr (s\<lparr>d := (d s)\<lparr>buf := buf (d s) + 1\<rparr>\<rparr>)
      else Inr s)"
  by (simp add: done_send_def try_send_def)

lemma Shutdown_eq:
  "Shutdown s =
     (if closed s then Inr s
      else if is_closed (q s) then Inl (Panic ''close of closed channel'')
      else Inr (s\<lparr>closed := True, q := (q s)\<lparr>is_closed := True\<rparr>,
                 pc := (if pc s = L_parked then L_quit else pc s)\<rparr>))"
  by (simp add: Shutdown_def close_chan_def)

lemma inv_New: "inv (NewSelfCleaningHistogram hs dl)"
  by (simp add: inv_def NewSelfCleaningHistogram_def make_chan_def)

lemma running_stop_timer [simp]: "\<not> running (stop_timer x)"
  by (cases x rule: stop_timer.cases) simp_all

lemma reg_send_inv: "inv s \<Longrightarrow> reg_send s = Inr s' \<Longrightarrow> inv s'"
  unfolding reg_send_eq inv_def
  by (simp split: if_splits) auto

lemma done_send_inv: "inv s \<Longrightarrow> done_send s = Inr s' \<Longrightarrow> inv s'"
  unfolding done_send_eq inv_def
  by (simp split: if_splits) auto

lemma Shutdown_inv: "inv s \<Longrightarrow> Shutdown s = Inr s' \<Longrightarrow> inv s'"
  unfolding Shutdown_eq inv_def
  by (simp split: if_splits) auto

lemma decay_step_inv: "inv s \<Longrightarrow> decay_step s = Inr s' \<Longrightarrow> inv s'"
  unfolding decay_step_def inv_def
  by (cases "pc s") (simp_all split: if_splits, auto)

lemma timer_fire_inv: "inv s \<Longrightarrow> timer_fire s = Inr s' \<Longrightarrow> inv s'"
  unfolding timer_fire_def inv_def
  by (simp split: option.splits timer.splits if_splits) auto

lemma clear_run_inv: "inv s \<Longrightarrow> clear_run s = Inr s' \<Longrightarrow> inv s'"
  unfolding clear_run_def inv_def
  by (simp split: if_splits) auto

lemma inv_upd [simp]:
  "inv (s\<lparr>reg_inflight := a\<rparr>) = inv s"
  "inv (s\<lparr>done_inflight := b\<rparr>) = inv s"
  "inv (s\<lparr>now := e\<rparr>) = inv s"
  "inv (s\<lparr>Histogram := f\<rparr>) = inv s"
  "inv (s\<lparr>cnt := g\<rparr>) = inv s"
  by (simp_all add: inv_def)

lemma step_inv: "inv s \<Longrightarrow> step l s = Inr s' \<Longrightarrow> inv s'"
proof (cases l)
  case RegSend
  assume "inv s" "step l s = Inr s'"
  with RegSend show ?thesis
    using reg_send_inv [of "s\<lparr>reg_inflight := reg_inflight s - 1\<rparr>" s']
    by (simp split: if_splits)
next
  case DoneSend
  assume "inv s" "step l s = Inr s'"
  with DoneSend show ?thesis
    using done_send_inv [of "s\<lparr>done_inflight := done_inflight s - 1\<rparr>" s']
    by (simp split: if_splits)
next
  case ShutdownCall
  assume "inv s" "step l s = Inr s'"
  with ShutdownCall show ?thesis using Shutdown_inv [of s s'] by simp
next
  case Decay
  assume "inv s" "step l s = Inr s'"
  with Decay show ?thesis using decay_step_inv [of s s'] by simp
next
  case TimerFire
  assume "inv s" "step l s = Inr s'"
  with TimerFire show ?thesis using timer_fire_inv [of s s'] by simp
next
  case ClearRun
  assume "inv s" "step l s = Inr s'"
  with ClearRun show ?thesis using clear_run_inv [of s s'] by simp
next
  case RegAdd
  assume "inv s" "step l s = Inr s'"
  with RegAdd show ?thesis by (auto simp: reg_add_def)
next
  case DoneAdd
  assume "inv s" "step l s = Inr s'"
  with DoneAdd show ?thesis by (auto simp: done_add_def Let_def split: if_splits)
next
  case (Tick n)
  assume "inv s" "step l s = Inr s'"
  with Tick show ?thesis by auto
next
  case (Sample v)
  assume "inv s" "step l s = Inr s'"
  with Sample show ?thesis by auto
qed

lemma run_inv: "inv s \<Longrightarrow> run tr s = Inr s' \<Longrightarrow> inv s'"
proof (induction tr arbitrary: s)
  case Nil
  then show ?case by simp
next
  case (Cons l ls)
  then show ?case
    by (cases "step l s") (auto dest: step_inv)
qed

lemma reachable_inv: "run tr (NewSelfCleaningHistogram hs dl) = Inr s \<Longrightarrow> inv s"
  using run_inv [OF inv_New] .

lemma run_append:
  "run (xs @ ys) s = (case run xs s of Inl f \<Rightarrow> Inl f | Inr s' \<Rightarrow> run ys s')"
  by (induction xs arbitrary: s) (auto split: sum.splits)

lemmas eval_defs =
  NewSelfCleaningHistogram_def make_chan_def reg_add_def reg_send_def try_send_def
  decay_step_def done_add_def done_send_def timer_fire_def clear_run_def
  Shutdown_def close_chan_def Update_def Clear_def Count_def


text \<open>A call is the sequence of its steps.\<close>

lemma Register_steps: "after (step RegAdd s) (step RegSend) = Register s"
  by (simp add: after_def Register_def reg_add_def reg_send_eq)

lemma Done_steps:
  "after (step DoneAdd s) (\<lambda>s1. if cnt s1 = 0 then step DoneSend s1 else Inr s1) = Done s"
  by (simp add: after_def Done_def done_add_def done_send_eq Let_def)

subsection \<open>The live-count\<close>

lemma cnt_reg_send: "reg_send s = Inr s' \<Longrightarrow> cnt s' = cnt s"
  by (auto simp: reg_send_eq split: if_splits)

lemma cnt_done_send: "done_send s = Inr s' \<Longrightarrow> cnt s' = cnt s"
  by (auto simp: done_send_eq split: if_splits)

lemma cnt_Shutdown: "Shutdown s = Inr s' \<Longrightarrow> cnt s' = cnt s"
  by (auto simp: Shutdown_eq split: if_splits)

lemma cnt_decay_step: "decay_step s = Inr s' \<Longrightarrow> cnt s' = cnt s"
  by (cases "pc s") (auto simp: decay_step_def split: if_splits)

lemma cnt_timer_fire: "timer_fire s = Inr s' \<Longrightarrow> cnt s' = cnt s"
  by (auto simp: timer_fire_def split: option.splits timer.splits if_splits)

lemma cnt_clear_run: "clear_run s = Inr s' \<Longrightarrow> cnt s' = cnt s"
  by (auto simp: clear_run_def split: if_splits)

lemma cnt_step:
  "step l s = Inr s' \<Longrightarrow>
   cnt s' = cnt s + of_nat (count_list [l] RegAdd) - of_nat (count_list [l] DoneAdd)"
proof (cases l)
  case RegSend
  assume "step l s = Inr s'"
  with RegSend show ?thesis
    using cnt_reg_send [of "s\<lparr>reg_inflight := reg_inflight s - 1\<rparr>" s']
    by (simp split: if_splits)
next
  case DoneSend
  assume "step l s = Inr s'"
  with DoneSend show ?thesis
    using cnt_done_send [of "s\<lparr>done_inflight := done_inflight s - 1\<rparr>" s']
    by (simp split: if_splits)
next
  case DoneAdd
  assume "step l s = Inr s'"
  with DoneAdd show ?thesis
    by (auto simp: done_add_def Let_def split: if_splits)
qed (auto simp: reg_add_def
      dest: cnt_Shutdown cnt_decay_step cnt_timer_fire cnt_clear_run)

lemma cnt_run:
  "run tr s = Inr s' \<Longrightarrow>
   cnt s' = cnt s + of_nat (count_list tr RegAdd) - of_nat (count_list tr DoneAdd)"
proof (induction tr arbitrary: s)
  case Nil
  then show ?case by simp
next
  case (Cons l ls)
  from Cons.prems obtain s1 where s1: "step l s = Inr s1" and rest: "run ls s1 = Inr s'"
    by (cases "step l s") auto
  from cnt_step [OF s1] Cons.IH [OF rest] show ?case
    by (cases "l = RegAdd"; cases "l = DoneAdd") simp_all
qed

lemma uint_diff_count:
  "uint (of_nat a - of_nat b :: 64 word) = (int a - int b) mod 2 ^ 64"
proof -
  have "(of_nat a - of_nat b :: 64 word) = word_of_int (int a - int b)"
    by simp
  then show ?thesis
    by (simp only: uint_word_of_int) simp
qed

text \<open>
  C5, as the code has it. After any interleaving that starts at the constructor, the
  live-count is the number of \<open>Register\<close> calls minus the number of \<open>Done\<close> calls
  modulo \<open>2 ^ 64\<close> (the counter is a \<open>uint64\<close>), so it is never negative; it is that
  difference itself whenever the difference lies in \<open>0 ..< 2 ^ 64\<close>. Each call does
  its atomic add as its first step, so the adds count the calls.
\<close>

theorem C5_live_count_mod:
  assumes "run tr (NewSelfCleaningHistogram hs dl) = Inr s"
  shows "uint (cnt s) = (int (count_list tr RegAdd) - int (count_list tr DoneAdd)) mod 2 ^ 64
       \<and> 0 \<le> uint (cnt s)
       \<and> (count_list tr DoneAdd \<le> count_list tr RegAdd
            \<and> count_list tr RegAdd - count_list tr DoneAdd < 2 ^ 64 \<longrightarrow>
          uint (cnt s) = int (count_list tr RegAdd) - int (count_list tr DoneAdd))"
proof -
  have "cnt s = of_nat (count_list tr RegAdd) - of_nat (count_list tr DoneAdd)"
    using cnt_run [OF assms] by (simp add: NewSelfCleaningHistogram_def)
  then have m: "uint (cnt s) =
      (int (count_list tr RegAdd) - int (count_list tr DoneAdd)) mod 2 ^ 64"
    by (simp only: uint_diff_count)
  have "count_list tr DoneAdd \<le> count_list tr RegAdd
            \<and> count_list tr RegAdd - count_list tr DoneAdd < 2 ^ 64 \<longrightarrow>
        (int (count_list tr RegAdd) - int (count_list tr DoneAdd)) mod 2 ^ 64
          = int (count_list tr RegAdd) - int (count_list tr DoneAdd)"
  proof
    assume a: "count_list tr DoneAdd \<le> count_list tr RegAdd
            \<and> count_list tr RegAdd - count_list tr DoneAdd < 2 ^ 64"
    then have "int (count_list tr RegAdd - count_list tr DoneAdd) < 2 ^ 64"
      by (metis of_nat_less_numeral_power_cancel_iff)
    with a have "0 \<le> int (count_list tr RegAdd) - int (count_list tr DoneAdd)"
      "int (count_list tr RegAdd) - int (count_list tr DoneAdd) < 2 ^ 64"
      by simp_all
    then show "(int (count_list tr RegAdd) - int (count_list tr DoneAdd)) mod 2 ^ 64
          = int (count_list tr RegAdd) - int (count_list tr DoneAdd)"
      by (rule mod_pos_pos_trivial)
  qed
  with m show ?thesis by simp
qed

theorem C5_live_count_mod_witness:
  "run [RegAdd, RegSend, RegAdd, RegSend, DoneAdd] (NewSelfCleaningHistogram [] 150) =
     Inr \<lparr>Histogram = [], c = make_chan 0, q = make_chan 0, d = make_chan 1,
          closed = False, cnt = 1, pc = L_select, t = None, delay = 150, now = 0,
          reg_inflight = 0, done_inflight = 0, callbacks = 0\<rparr>
   \<and> count_list [RegAdd, RegSend, RegAdd, RegSend, DoneAdd] DoneAdd
       \<le> count_list [RegAdd, RegSend, RegAdd, RegSend, DoneAdd] RegAdd
   \<and> count_list [RegAdd, RegSend, RegAdd, RegSend, DoneAdd] RegAdd
       - count_list [RegAdd, RegSend, RegAdd, RegSend, DoneAdd] DoneAdd < 2 ^ 64
   \<and> uint (1 :: 64 word) = 2 - 1"
  using C5_live_count_mod [of "[RegAdd, RegSend, RegAdd, RegSend, DoneAdd]" "[]" 150
      "\<lparr>Histogram = [], c = make_chan 0, q = make_chan 0, d = make_chan 1,
          closed = False, cnt = 1, pc = L_select, t = None, delay = 150, now = 0,
          reg_inflight = 0, done_inflight = 0, callbacks = 0\<rparr>"]
  by (simp add: eval_defs)

text \<open>
  C5 as stated fails: one \<open>Done\<close> on a fresh histogram, no \<open>Register\<close> before it, leaves
  the live-count at \<open>2 ^ 64 - 1\<close>, not at \<open>0 - 1\<close>.
\<close>

theorem C5_unmatched_Done_wraps:
  "view (\<lambda>s. uint (cnt s)) (Done (NewSelfCleaningHistogram [] 150)) = Inr 18446744073709551615
   \<and> (18446744073709551615 :: int) \<noteq> 0 - 1"
  by (simp add: view_def Done_def eval_defs unsigned_minus_1_eq_mask mask_eq_exp_minus_1)

subsection \<open>A dropped activity pulse\<close>

text \<open>
  C1 fails on the code. The first user registers (the pulse reaches \<open>decay\<close>, parked in
  its \<open>select\<close>) and inserts a sample; \<open>decay\<close> parks in \<open><-h.d\<close>; the user calls
  \<open>Done\<close>, the live-count crosses zero at time 0 and \<open>decay\<close> is resumed. One
  nanosecond later, before \<open>decay\<close> is back in its \<open>select\<close>, a second user registers:
  nobody receives on \<open>h.c\<close>, the pulse is dropped. \<open>decay\<close> arms the timer and parks.
  When the delay has elapsed the timer fires and the pool is cleared, with the
  live-count at 1 since time 1 and no zero-crossing after that \<open>Register\<close>.
\<close>

theorem C1_clear_while_registered:
  "run [Decay, RegAdd, RegSend, Sample 10, Decay, Decay, DoneAdd, DoneSend, Tick 1,
        RegAdd, RegSend, Sample 20, Decay, Decay, Tick 150]
     (NewSelfCleaningHistogram [] 150) =
   Inr \<lparr>Histogram = [10, 20], c = make_chan 0, q = make_chan 0, d = make_chan 1,
        closed = False, cnt = 1, pc = L_parked, t = Some (Running 151), delay = 150,
        now = 151, reg_inflight = 0, done_inflight = 0, callbacks = 0\<rparr> \<and>
   run [Decay, RegAdd, RegSend, Sample 10, Decay, Decay, DoneAdd, DoneSend, Tick 1,
        RegAdd, RegSend, Sample 20, Decay, Decay, Tick 150, TimerFire, ClearRun]
     (NewSelfCleaningHistogram [] 150) =
   Inr \<lparr>Histogram = [], c = make_chan 0, q = make_chan 0, d = make_chan 1,
        closed = False, cnt = 1, pc = L_parked, t = Some Fired, delay = 150,
        now = 151, reg_inflight = 0, done_inflight = 0, callbacks = 0\<rparr>"
  by (simp add: eval_defs)

text \<open>
  The same drop within the documented use, one user who calls \<open>Register\<close>, inserts a
  sample and calls \<open>Done\<close>: \<open>Register\<close> is called before \<open>decay\<close> has parked in its
  \<open>select\<close>, the pulse is dropped, \<open>decay\<close> never leaves the \<open>select\<close> and no timer is
  armed. The live-count is zero for 1000 ns, the delay is 150 ns, the pool keeps its
  sample and nothing is there to clear it.
\<close>

lemma dropped_pulse_no_timer:
  "run [RegAdd, RegSend, Sample 10, Decay, DoneAdd, DoneSend, Tick 1000]
     (NewSelfCleaningHistogram [] 150) =
   Inr \<lparr>Histogram = [10], c = make_chan 0, q = make_chan 0,
        d = \<lparr>cap = 1, buf = 1, is_closed = False\<rparr>, closed = False, cnt = 0,
        pc = L_parked, t = None, delay = 150, now = 1000, reg_inflight = 0,
        done_inflight = 0, callbacks = 0\<rparr>
   \<and> run [RegAdd, RegSend, Sample 10, Decay, DoneAdd, DoneSend, Tick 1000, Decay]
     (NewSelfCleaningHistogram [] 150) = Inl Blocked
   \<and> run [RegAdd, RegSend, Sample 10, Decay, DoneAdd, DoneSend, Tick 1000, TimerFire]
     (NewSelfCleaningHistogram [] 150) = Inl Disabled
   \<and> run [RegAdd, RegSend, Sample 10, Decay, DoneAdd, DoneSend, Tick 1000, ClearRun]
     (NewSelfCleaningHistogram [] 150) = Inl Disabled"
  by (simp add: eval_defs)

subsection \<open>Shutdown\<close>

lemma closed_step: "step l s = Inr s' \<Longrightarrow> closed s \<or> l = ShutdownCall \<Longrightarrow> closed s'"
proof (cases l)
  case RegSend
  assume "step l s = Inr s'" "closed s \<or> l = ShutdownCall"
  with RegSend show ?thesis by (auto simp: reg_send_eq split: if_splits)
next
  case DoneSend
  assume "step l s = Inr s'" "closed s \<or> l = ShutdownCall"
  with DoneSend show ?thesis by (auto simp: done_send_eq split: if_splits)
next
  case ShutdownCall
  assume "step l s = Inr s'" "closed s \<or> l = ShutdownCall"
  with ShutdownCall show ?thesis by (auto simp: Shutdown_eq split: if_splits)
next
  case Decay
  assume "step l s = Inr s'" "closed s \<or> l = ShutdownCall"
  with Decay show ?thesis by (cases "pc s") (auto simp: decay_step_def split: if_splits)
next
  case TimerFire
  assume "step l s = Inr s'" "closed s \<or> l = ShutdownCall"
  with TimerFire show ?thesis
    by (auto simp: timer_fire_def split: option.splits timer.splits if_splits)
next
  case ClearRun
  assume "step l s = Inr s'" "closed s \<or> l = ShutdownCall"
  with ClearRun show ?thesis by (auto simp: clear_run_def split: if_splits)
qed (auto simp: reg_add_def done_add_def Let_def split: if_splits)

lemma closed_run:
  "run tr s = Inr s' \<Longrightarrow> closed s \<or> ShutdownCall \<in> set tr \<Longrightarrow> closed s'"
proof (induction tr arbitrary: s)
  case Nil
  then show ?case by simp
next
  case (Cons l ls)
  from Cons.prems obtain s1 where s1: "step l s = Inr s1" and rest: "run ls s1 = Inr s'"
    by (cases "step l s") auto
  show ?case
  proof (cases "closed s \<or> l = ShutdownCall")
    case True
    with closed_step [OF s1] have "closed s1" by simp
    with Cons.IH [OF rest] show ?thesis by simp
  next
    case False
    with Cons.prems have "ShutdownCall \<in> set ls" by auto
    with Cons.IH [OF rest] show ?thesis by simp
  qed
qed

lemma after_Shutdown_reachable:
  assumes "run tr (NewSelfCleaningHistogram hs dl) = Inr s" and "ShutdownCall \<in> set tr"
  shows "inv s \<and> closed s \<and> is_closed (q s) \<and> pc s \<noteq> L_parked"
proof -
  have i: "inv s" using assms(1) by (rule reachable_inv)
  have "closed s" using closed_run [OF assms(1)] assms(2) by simp
  with i show ?thesis by (auto simp: inv_def)
qed

text \<open>Once decay has returned with no timer running, nothing fires.\<close>

lemma exited_step:
  assumes "step l s = Inr s'" and "pc s = L_exited" and "\<not> running (t s)"
  shows "pc s' = L_exited \<and> \<not> running (t s') \<and> l \<noteq> TimerFire
       \<and> count_list [l] ClearRun + callbacks s' = callbacks s"
proof (cases l)
  case RegSend
  with assms show ?thesis by (auto simp: reg_send_eq split: if_splits)
next
  case DoneSend
  with assms show ?thesis by (auto simp: done_send_eq split: if_splits)
next
  case ShutdownCall
  with assms show ?thesis by (auto simp: Shutdown_eq split: if_splits)
next
  case Decay
  with assms show ?thesis by (simp add: decay_step_def)
next
  case TimerFire
  with assms show ?thesis
    by (cases "t s" rule: running.cases) (simp_all add: timer_fire_def)
next
  case ClearRun
  with assms show ?thesis by (auto simp: clear_run_def split: if_splits)
qed (use assms in \<open>auto simp: reg_add_def done_add_def Let_def split: if_splits\<close>)

lemma exited_run:
  assumes "run tr s = Inr s'" and "pc s = L_exited" and "\<not> running (t s)"
  shows "pc s' = L_exited \<and> \<not> running (t s') \<and> TimerFire \<notin> set tr
       \<and> count_list tr ClearRun + callbacks s' = callbacks s"
  using assms
proof (induction tr arbitrary: s)
  case Nil
  then show ?case by simp
next
  case (Cons l ls)
  from Cons.prems obtain s1 where s1: "step l s = Inr s1" and rest: "run ls s1 = Inr s'"
    by (cases "step l s") auto
  from exited_step [OF s1 Cons.prems(2,3)]
  have a: "pc s1 = L_exited" "\<not> running (t s1)" "l \<noteq> TimerFire"
    "count_list [l] ClearRun + callbacks s1 = callbacks s" by simp_all
  from Cons.IH [OF rest a(1,2)] a(3,4) show ?case
    by (cases "l = ClearRun") auto
qed

text \<open>Between \<open>case <-h.c\<close> and the drained signal \<open>decay\<close> stays where it is, whatever
  else happens, as long as nobody calls \<open>Done\<close>.\<close>

lemma draining_step:
  assumes "step l s = Inr s'"
    and "pc s = L_stop \<or> pc s = L_recv_d \<or> pc s = L_parked_d"
    and "buf (d s) = 0" and "done_inflight s = 0" and "l \<noteq> DoneAdd"
  shows "(pc s' = L_stop \<or> pc s' = L_recv_d \<or> pc s' = L_parked_d)
       \<and> buf (d s') = 0 \<and> done_inflight s' = 0"
proof (cases l)
  case RegSend
  with assms show ?thesis by (auto simp: reg_send_eq split: if_splits)
next
  case ShutdownCall
  with assms show ?thesis by (auto simp: Shutdown_eq split: if_splits)
next
  case Decay
  with assms show ?thesis by (auto simp: decay_step_def split: if_splits)
next
  case TimerFire
  with assms show ?thesis
    by (auto simp: timer_fire_def split: option.splits timer.splits if_splits)
next
  case ClearRun
  with assms show ?thesis by (auto simp: clear_run_def split: if_splits)
qed (use assms in \<open>auto simp: reg_add_def split: if_splits\<close>)

lemma draining_run:
  assumes "run tr s = Inr s'"
    and "pc s = L_stop \<or> pc s = L_recv_d \<or> pc s = L_parked_d"
    and "buf (d s) = 0" and "done_inflight s = 0" and "DoneAdd \<notin> set tr"
  shows "(pc s' = L_stop \<or> pc s' = L_recv_d \<or> pc s' = L_parked_d) \<and> buf (d s') = 0"
  using assms
proof (induction tr arbitrary: s)
  case Nil
  then show ?case by simp
next
  case (Cons l ls)
  from Cons.prems(1) obtain s1 where s1: "step l s = Inr s1" and rest: "run ls s1 = Inr s'"
    by (cases "step l s") auto
  from Cons.prems(5) have l: "l \<noteq> DoneAdd" and ls: "DoneAdd \<notin> set ls" by auto
  from draining_step [OF s1 Cons.prems(2,3,4) l]
  have a: "pc s1 = L_stop \<or> pc s1 = L_recv_d \<or> pc s1 = L_parked_d"
    "buf (d s1) = 0" "done_inflight s1 = 0" by simp_all
  from Cons.IH [OF rest a ls] show ?case .
qed

text \<open>
  C2, as the code has it. In every state reached by an interleaving in which \<open>Shutdown\<close>
  was called, \<open>decay\<close> is not parked in its \<open>select\<close>; if it stands in front of the
  \<open>select\<close> (the spec's Waiting and Armed) its next two steps take \<open>case <-h.q\<close>, stop
  the timer and return; if it has taken \<open>case <-h.q\<close> its next step does. Once it has
  returned no timer runs, and whatever happens afterwards no timer fires; \<open>h.Clear\<close>
  then runs only for timers that had fired before (the callbacks still pending).
  In the spec's Draining \<open>decay\<close> does not look at \<open>h.q\<close>: after \<open>case <-h.c\<close> it
  stops the timer and goes on to \<open><-h.d\<close>; there it takes a buffered drained signal or
  parks, and parked it is blocked; as long as no drained signal is there and nobody
  calls \<open>Done\<close> it stays in Draining whatever else happens. Once it has the drained
  signal it arms a new timer, and only its next two steps take \<open>case <-h.q\<close>, stop that
  timer and return.
\<close>

theorem C2_quit_taken_at_select:
  assumes "run tr (NewSelfCleaningHistogram hs dl) = Inr s" and "ShutdownCall \<in> set tr"
  shows "pc s \<noteq> L_parked
       \<and> (pc s = L_select \<longrightarrow>
            run [Decay, Decay] s = Inr (s\<lparr>pc := L_exited, t := stop_timer (t s)\<rparr>))
       \<and> (pc s = L_quit \<longrightarrow>
            run [Decay] s = Inr (s\<lparr>pc := L_exited, t := stop_timer (t s)\<rparr>))
       \<and> (pc s = L_exited \<longrightarrow>
            \<not> running (t s) \<and>
            (\<forall>tr' s'. run tr' s = Inr s' \<longrightarrow>
               pc s' = L_exited \<and> \<not> running (t s') \<and> TimerFire \<notin> set tr'
               \<and> count_list tr' ClearRun + callbacks s' = callbacks s))
       \<and> (pc s = L_stop \<longrightarrow>
            step Decay s = Inr (s\<lparr>pc := L_recv_d, t := stop_timer (t s)\<rparr>))
       \<and> (pc s = L_recv_d \<longrightarrow>
            step Decay s =
              Inr (if 0 < buf (d s) then s\<lparr>pc := L_arm, d := (d s)\<lparr>buf := buf (d s) - 1\<rparr>\<rparr>
                   else s\<lparr>pc := L_parked_d\<rparr>))
       \<and> (pc s = L_parked_d \<longrightarrow> step Decay s = Inl Blocked)
       \<and> ((pc s = L_stop \<or> pc s = L_recv_d \<or> pc s = L_parked_d)
            \<and> buf (d s) = 0 \<and> done_inflight s = 0 \<longrightarrow>
            (\<forall>tr' s'. DoneAdd \<notin> set tr' \<and> run tr' s = Inr s' \<longrightarrow>
               (pc s' = L_stop \<or> pc s' = L_recv_d \<or> pc s' = L_parked_d) \<and> buf (d s') = 0))
       \<and> (pc s = L_arm \<longrightarrow>
            step Decay s = Inr (s\<lparr>pc := L_select, t := Some (Running (now s + delay s))\<rparr>)
            \<and> run [Decay, Decay, Decay] s = Inr (s\<lparr>pc := L_exited, t := Some Stopped\<rparr>))"
proof -
  from after_Shutdown_reachable [OF assms]
  have i: "inv s" and qc: "is_closed (q s)" and np: "pc s \<noteq> L_parked" by simp_all
  have sel: "pc s = L_select \<longrightarrow>
       run [Decay, Decay] s = Inr (s\<lparr>pc := L_exited, t := stop_timer (t s)\<rparr>)"
    using qc by (simp add: decay_step_def)
  have quit: "pc s = L_quit \<longrightarrow>
       run [Decay] s = Inr (s\<lparr>pc := L_exited, t := stop_timer (t s)\<rparr>)"
    by (simp add: decay_step_def)
  have ex: "pc s = L_exited \<longrightarrow>
            \<not> running (t s) \<and>
            (\<forall>tr' s'. run tr' s = Inr s' \<longrightarrow>
               pc s' = L_exited \<and> \<not> running (t s') \<and> TimerFire \<notin> set tr'
               \<and> count_list tr' ClearRun + callbacks s' = callbacks s)"
  proof
    assume e: "pc s = L_exited"
    with i have nr: "\<not> running (t s)" by (simp add: inv_def)
    show "\<not> running (t s) \<and>
            (\<forall>tr' s'. run tr' s = Inr s' \<longrightarrow>
               pc s' = L_exited \<and> \<not> running (t s') \<and> TimerFire \<notin> set tr'
               \<and> count_list tr' ClearRun + callbacks s' = callbacks s)"
      using nr exited_run [OF _ e nr] by blast
  qed
  have stop: "pc s = L_stop \<longrightarrow>
            step Decay s = Inr (s\<lparr>pc := L_recv_d, t := stop_timer (t s)\<rparr>)"
    by (simp add: decay_step_def)
  have recv: "pc s = L_recv_d \<longrightarrow>
            step Decay s =
              Inr (if 0 < buf (d s) then s\<lparr>pc := L_arm, d := (d s)\<lparr>buf := buf (d s) - 1\<rparr>\<rparr>
                   else s\<lparr>pc := L_parked_d\<rparr>)"
    by (simp add: decay_step_def)
  have parked: "pc s = L_parked_d \<longrightarrow> step Decay s = Inl Blocked"
    by (simp add: decay_step_def)
  have stay: "(pc s = L_stop \<or> pc s = L_recv_d \<or> pc s = L_parked_d)
            \<and> buf (d s) = 0 \<and> done_inflight s = 0 \<longrightarrow>
            (\<forall>tr' s'. DoneAdd \<notin> set tr' \<and> run tr' s = Inr s' \<longrightarrow>
               (pc s' = L_stop \<or> pc s' = L_recv_d \<or> pc s' = L_parked_d) \<and> buf (d s') = 0)"
    using draining_run by blast
  have arm: "pc s = L_arm \<longrightarrow>
            step Decay s = Inr (s\<lparr>pc := L_select, t := Some (Running (now s + delay s))\<rparr>)
            \<and> run [Decay, Decay, Decay] s = Inr (s\<lparr>pc := L_exited, t := Some Stopped\<rparr>)"
    using qc by (simp add: decay_step_def)
  from np sel quit ex stop recv parked stay arm show ?thesis by blast
qed

text \<open>C2 at seven runs, each with a \<open>Shutdown\<close>: a timer armed and \<open>decay\<close> in front of
  its \<open>select\<close>; \<open>decay\<close> parked in the \<open>select\<close>; \<open>decay\<close> returned; and \<open>decay\<close>
  after \<open>case <-h.c\<close>, in front of \<open><-h.d\<close>, parked in \<open><-h.d\<close>, and resumed by a
  \<open>Done\<close>.\<close>

theorem C2_quit_taken_at_select_witness:
  "run [Decay, RegAdd, RegSend, Decay, Decay, DoneAdd, DoneSend, Decay, ShutdownCall]
     (NewSelfCleaningHistogram [] 150) =
     Inr \<lparr>Histogram = [], c = make_chan 0, q = \<lparr>cap = 0, buf = 0, is_closed = True\<rparr>,
          d = make_chan 1, closed = True, cnt = 0, pc = L_select, t = Some (Running 150),
          delay = 150, now = 0, reg_inflight = 0, done_inflight = 0, callbacks = 0\<rparr>
   \<and> ShutdownCall \<in> set [Decay, RegAdd, RegSend, Decay, Decay, DoneAdd, DoneSend, Decay, ShutdownCall]
   \<and> run [Decay, Decay]
        \<lparr>Histogram = [], c = make_chan 0, q = \<lparr>cap = 0, buf = 0, is_closed = True\<rparr>,
          d = make_chan 1, closed = True, cnt = 0, pc = L_select, t = Some (Running 150),
          delay = 150, now = 0, reg_inflight = 0, done_inflight = 0, callbacks = 0\<rparr> =
     Inr \<lparr>Histogram = [], c = make_chan 0, q = \<lparr>cap = 0, buf = 0, is_closed = True\<rparr>,
          d = make_chan 1, closed = True, cnt = 0, pc = L_exited, t = Some Stopped,
          delay = 150, now = 0, reg_inflight = 0, done_inflight = 0, callbacks = 0\<rparr>
   \<and> run [Decay, ShutdownCall]
     (NewSelfCleaningHistogram [] 150) =
     Inr \<lparr>Histogram = [], c = make_chan 0, q = \<lparr>cap = 0, buf = 0, is_closed = True\<rparr>,
          d = make_chan 1, closed = True, cnt = 0, pc = L_quit, t = None,
          delay = 150, now = 0, reg_inflight = 0, done_inflight = 0, callbacks = 0\<rparr>
   \<and> ShutdownCall \<in> set [Decay, ShutdownCall]
   \<and> run [Decay]
        \<lparr>Histogram = [], c = make_chan 0, q = \<lparr>cap = 0, buf = 0, is_closed = True\<rparr>,
          d = make_chan 1, closed = True, cnt = 0, pc = L_quit, t = None,
          delay = 150, now = 0, reg_inflight = 0, done_inflight = 0, callbacks = 0\<rparr> =
     Inr \<lparr>Histogram = [], c = make_chan 0, q = \<lparr>cap = 0, buf = 0, is_closed = True\<rparr>,
          d = make_chan 1, closed = True, cnt = 0, pc = L_exited, t = None,
          delay = 150, now = 0, reg_inflight = 0, done_inflight = 0, callbacks = 0\<rparr>
   \<and> run [ShutdownCall, Decay, Decay]
     (NewSelfCleaningHistogram [] 150) =
     Inr \<lparr>Histogram = [], c = make_chan 0, q = \<lparr>cap = 0, buf = 0, is_closed = True\<rparr>,
          d = make_chan 1, closed = True, cnt = 0, pc = L_exited, t = None,
          delay = 150, now = 0, reg_inflight = 0, done_inflight = 0, callbacks = 0\<rparr>
   \<and> ShutdownCall \<in> set [ShutdownCall, Decay, Decay]
   \<and> run [Tick 150, Sample 3]
        \<lparr>Histogram = [], c = make_chan 0, q = \<lparr>cap = 0, buf = 0, is_closed = True\<rparr>,
          d = make_chan 1, closed = True, cnt = 0, pc = L_exited, t = None,
          delay = 150, now = 0, reg_inflight = 0, done_inflight = 0, callbacks = 0\<rparr> =
     Inr \<lparr>Histogram = [3], c = make_chan 0, q = \<lparr>cap = 0, buf = 0, is_closed = True\<rparr>,
          d = make_chan 1, closed = True, cnt = 0, pc = L_exited, t = None,
          delay = 150, now = 150, reg_inflight = 0, done_inflight = 0, callbacks = 0\<rparr>
   \<and> TimerFire \<notin> set [Tick 150, Sample 3]
   \<and> run [Decay, RegAdd, RegSend, ShutdownCall]
     (NewSelfCleaningHistogram [] 150) =
     Inr \<lparr>Histogram = [], c = make_chan 0, q = \<lparr>cap = 0, buf = 0, is_closed = True\<rparr>,
          d = make_chan 1, closed = True, cnt = 1, pc = L_stop, t = None,
          delay = 150, now = 0, reg_inflight = 0, done_inflight = 0, callbacks = 0\<rparr>
   \<and> ShutdownCall \<in> set [Decay, RegAdd, RegSend, ShutdownCall]
   \<and> step Decay
        \<lparr>Histogram = [], c = make_chan 0, q = \<lparr>cap = 0, buf = 0, is_closed = True\<rparr>,
          d = make_chan 1, closed = True, cnt = 1, pc = L_stop, t = None,
          delay = 150, now = 0, reg_inflight = 0, done_inflight = 0, callbacks = 0\<rparr> =
     Inr \<lparr>Histogram = [], c = make_chan 0, q = \<lparr>cap = 0, buf = 0, is_closed = True\<rparr>,
          d = make_chan 1, closed = True, cnt = 1, pc = L_recv_d, t = None,
          delay = 150, now = 0, reg_inflight = 0, done_inflight = 0, callbacks = 0\<rparr>
   \<and> run [Decay, RegAdd, RegSend, Decay, ShutdownCall]
     (NewSelfCleaningHistogram [] 150) =
     Inr \<lparr>Histogram = [], c = make_chan 0, q = \<lparr>cap = 0, buf = 0, is_closed = True\<rparr>,
          d = make_chan 1, closed = True, cnt = 1, pc = L_recv_d, t = None,
          delay = 150, now = 0, reg_inflight = 0, done_inflight = 0, callbacks = 0\<rparr>
   \<and> ShutdownCall \<in> set [Decay, RegAdd, RegSend, Decay, ShutdownCall]
   \<and> step Decay
        \<lparr>Histogram = [], c = make_chan 0, q = \<lparr>cap = 0, buf = 0, is_closed = True\<rparr>,
          d = make_chan 1, closed = True, cnt = 1, pc = L_recv_d, t = None,
          delay = 150, now = 0, reg_inflight = 0, done_inflight = 0, callbacks = 0\<rparr> =
     Inr \<lparr>Histogram = [], c = make_chan 0, q = \<lparr>cap = 0, buf = 0, is_closed = True\<rparr>,
          d = make_chan 1, closed = True, cnt = 1, pc = L_parked_d, t = None,
          delay = 150, now = 0, reg_inflight = 0, done_inflight = 0, callbacks = 0\<rparr>
   \<and> run [Decay, RegAdd, RegSend, Decay, Decay, ShutdownCall]
     (NewSelfCleaningHistogram [] 150) =
     Inr \<lparr>Histogram = [], c = make_chan 0, q = \<lparr>cap = 0, buf = 0, is_closed = True\<rparr>,
          d = make_chan 1, closed = True, cnt = 1, pc = L_parked_d, t = None,
          delay = 150, now = 0, reg_inflight = 0, done_inflight = 0, callbacks = 0\<rparr>
   \<and> ShutdownCall \<in> set [Decay, RegAdd, RegSend, Decay, Decay, ShutdownCall]
   \<and> step Decay
        \<lparr>Histogram = [], c = make_chan 0, q = \<lparr>cap = 0, buf = 0, is_closed = True\<rparr>,
          d = make_chan 1, closed = True, cnt = 1, pc = L_parked_d, t = None,
          delay = 150, now = 0, reg_inflight = 0, done_inflight = 0, callbacks = 0\<rparr> = Inl Blocked
   \<and> DoneAdd \<notin> set [Tick 150, Sample 3, ShutdownCall, RegAdd, RegSend]
   \<and> run [Tick 150, Sample 3, ShutdownCall, RegAdd, RegSend]
        \<lparr>Histogram = [], c = make_chan 0, q = \<lparr>cap = 0, buf = 0, is_closed = True\<rparr>,
          d = make_chan 1, closed = True, cnt = 1, pc = L_parked_d, t = None,
          delay = 150, now = 0, reg_inflight = 0, done_inflight = 0, callbacks = 0\<rparr> =
     Inr \<lparr>Histogram = [3], c = make_chan 0, q = \<lparr>cap = 0, buf = 0, is_closed = True\<rparr>,
          d = make_chan 1, closed = True, cnt = 2, pc = L_parked_d, t = None,
          delay = 150, now = 150, reg_inflight = 0, done_inflight = 0, callbacks = 0\<rparr>
   \<and> run [Decay, RegAdd, RegSend, Decay, Decay, ShutdownCall, DoneAdd, DoneSend]
     (NewSelfCleaningHistogram [] 150) =
     Inr \<lparr>Histogram = [], c = make_chan 0, q = \<lparr>cap = 0, buf = 0, is_closed = True\<rparr>,
          d = make_chan 1, closed = True, cnt = 0, pc = L_arm, t = None,
          delay = 150, now = 0, reg_inflight = 0, done_inflight = 0, callbacks = 0\<rparr>
   \<and> ShutdownCall \<in> set [Decay, RegAdd, RegSend, Decay, Decay, ShutdownCall, DoneAdd, DoneSend]
   \<and> step Decay
        \<lparr>Histogram = [], c = make_chan 0, q = \<lparr>cap = 0, buf = 0, is_closed = True\<rparr>,
          d = make_chan 1, closed = True, cnt = 0, pc = L_arm, t = None,
          delay = 150, now = 0, reg_inflight = 0, done_inflight = 0, callbacks = 0\<rparr> =
     Inr \<lparr>Histogram = [], c = make_chan 0, q = \<lparr>cap = 0, buf = 0, is_closed = True\<rparr>,
          d = make_chan 1, closed = True, cnt = 0, pc = L_select, t = Some (Running 150),
          delay = 150, now = 0, reg_inflight = 0, done_inflight = 0, callbacks = 0\<rparr>
   \<and> run [Decay, Decay, Decay]
        \<lparr>Histogram = [], c = make_chan 0, q = \<lparr>cap = 0, buf = 0, is_closed = True\<rparr>,
          d = make_chan 1, closed = True, cnt = 0, pc = L_arm, t = None,
          delay = 150, now = 0, reg_inflight = 0, done_inflight = 0, callbacks = 0\<rparr> =
     Inr \<lparr>Histogram = [], c = make_chan 0, q = \<lparr>cap = 0, buf = 0, is_closed = True\<rparr>,
          d = make_chan 1, closed = True, cnt = 0, pc = L_exited, t = Some Stopped,
          delay = 150, now = 0, reg_inflight = 0, done_inflight = 0, callbacks = 0\<rparr>"
  using
    C2_quit_taken_at_select [of "[Decay, RegAdd, RegSend, Decay, Decay, DoneAdd, DoneSend, Decay, ShutdownCall]" "[]" 150
        "\<lparr>Histogram = [], c = make_chan 0, q = \<lparr>cap = 0, buf = 0, is_closed = True\<rparr>,
          d = make_chan 1, closed = True, cnt = 0, pc = L_select, t = Some (Running 150),
          delay = 150, now = 0, reg_inflight = 0, done_inflight = 0, callbacks = 0\<rparr>"]
    C2_quit_taken_at_select [of "[Decay, ShutdownCall]" "[]" 150
        "\<lparr>Histogram = [], c = make_chan 0, q = \<lparr>cap = 0, buf = 0, is_closed = True\<rparr>,
          d = make_chan 1, closed = True, cnt = 0, pc = L_quit, t = None,
          delay = 150, now = 0, reg_inflight = 0, done_inflight = 0, callbacks = 0\<rparr>"]
    C2_quit_taken_at_select [of "[ShutdownCall, Decay, Decay]" "[]" 150
        "\<lparr>Histogram = [], c = make_chan 0, q = \<lparr>cap = 0, buf = 0, is_closed = True\<rparr>,
          d = make_chan 1, closed = True, cnt = 0, pc = L_exited, t = None,
          delay = 150, now = 0, reg_inflight = 0, done_inflight = 0, callbacks = 0\<rparr>"]
    C2_quit_taken_at_select [of "[Decay, RegAdd, RegSend, ShutdownCall]" "[]" 150
        "\<lparr>Histogram = [], c = make_chan 0, q = \<lparr>cap = 0, buf = 0, is_closed = True\<rparr>,
          d = make_chan 1, closed = True, cnt = 1, pc = L_stop, t = None,
          delay = 150, now = 0, reg_inflight = 0, done_inflight = 0, callbacks = 0\<rparr>"]
    C2_quit_taken_at_select [of "[Decay, RegAdd, RegSend, Decay, ShutdownCall]" "[]" 150
        "\<lparr>Histogram = [], c = make_chan 0, q = \<lparr>cap = 0, buf = 0, is_closed = True\<rparr>,
          d = make_chan 1, closed = True, cnt = 1, pc = L_recv_d, t = None,
          delay = 150, now = 0, reg_inflight = 0, done_inflight = 0, callbacks = 0\<rparr>"]
    C2_quit_taken_at_select [of "[Decay, RegAdd, RegSend, Decay, Decay, ShutdownCall]" "[]" 150
        "\<lparr>Histogram = [], c = make_chan 0, q = \<lparr>cap = 0, buf = 0, is_closed = True\<rparr>,
          d = make_chan 1, closed = True, cnt = 1, pc = L_parked_d, t = None,
          delay = 150, now = 0, reg_inflight = 0, done_inflight = 0, callbacks = 0\<rparr>"]
    C2_quit_taken_at_select [of "[Decay, RegAdd, RegSend, Decay, Decay, ShutdownCall, DoneAdd, DoneSend]" "[]" 150
        "\<lparr>Histogram = [], c = make_chan 0, q = \<lparr>cap = 0, buf = 0, is_closed = True\<rparr>,
          d = make_chan 1, closed = True, cnt = 0, pc = L_arm, t = None,
          delay = 150, now = 0, reg_inflight = 0, done_inflight = 0, callbacks = 0\<rparr>"]
  by (simp add: eval_defs)

text \<open>
  C2 as stated fails in Draining. \<open>Shutdown\<close> is called while \<open>decay\<close> is parked in
  \<open><-h.d\<close>: \<open>decay\<close> stays blocked, it has not returned. When a \<open>Done\<close> then brings
  the live-count to zero, \<open>decay\<close> arms a new timer, after \<open>Shutdown\<close>; that timer
  fires and the pool is cleared.
\<close>

theorem C2_draining_ignores_quit:
  "run [Decay, RegAdd, RegSend, Sample 10, Decay, Decay, ShutdownCall]
     (NewSelfCleaningHistogram [] 150) =
   Inr \<lparr>Histogram = [10], c = make_chan 0, q = \<lparr>cap = 0, buf = 0, is_closed = True\<rparr>,
        d = make_chan 1, closed = True, cnt = 1, pc = L_parked_d, t = None, delay = 150,
        now = 0, reg_inflight = 0, done_inflight = 0, callbacks = 0\<rparr>
   \<and> run [Decay, RegAdd, RegSend, Sample 10, Decay, Decay, ShutdownCall, Decay]
     (NewSelfCleaningHistogram [] 150) = Inl Blocked
   \<and> run [Decay, RegAdd, RegSend, Sample 10, Decay, Decay, ShutdownCall,
          DoneAdd, DoneSend, Decay, Tick 150, TimerFire, ClearRun]
     (NewSelfCleaningHistogram [] 150) =
   Inr \<lparr>Histogram = [], c = make_chan 0, q = \<lparr>cap = 0, buf = 0, is_closed = True\<rparr>,
        d = make_chan 1, closed = True, cnt = 0, pc = L_select, t = Some Fired, delay = 150,
        now = 150, reg_inflight = 0, done_inflight = 0, callbacks = 0\<rparr>"
  by (simp add: eval_defs)

lemma Shutdown_twice: "inv s \<Longrightarrow> after (Shutdown s) Shutdown = Shutdown s"
  by (simp add: after_def Shutdown_eq inv_def)

lemma Shutdown_closed_id: "closed s \<Longrightarrow> Shutdown_times n s = Inr s"
  by (induction n) (simp_all add: Shutdown_eq)

lemma Shutdown_times_Suc: "inv s \<Longrightarrow> Shutdown_times (Suc n) s = Shutdown s"
proof (cases "closed s")
  case True
  then show ?thesis using Shutdown_closed_id [of s "Suc n"] by (simp add: Shutdown_eq)
next
  case False
  assume "inv s"
  with False have nq: "\<not> is_closed (q s)" by (simp add: inv_def)
  let ?s1 = "s\<lparr>closed := True, q := (q s)\<lparr>is_closed := True\<rparr>,
                 pc := (if pc s = L_parked then L_quit else pc s)\<rparr>"
  have a: "Shutdown s = Inr ?s1" using False nq by (simp add: Shutdown_eq)
  have "closed ?s1" by simp
  then have "Shutdown_times n ?s1 = Inr ?s1" by (rule Shutdown_closed_id)
  with a show ?thesis by simp
qed

text \<open>
  C8, as the code has it. In every reachable state, \<open>n \<ge> 1\<close> calls of \<open>Shutdown\<close> in a
  row do what one call does: the first call that finds the flag unset sets it and
  closes \<open>h.q\<close> (waking a parked \<open>decay\<close>), without panic; every other call changes
  nothing. No timer fires once \<open>decay\<close> has returned; before that, a running timer can
  fire although \<open>Shutdown\<close> has returned.
\<close>

theorem C8_Shutdown_idempotent:
  assumes "run tr (NewSelfCleaningHistogram hs dl) = Inr s" and "1 \<le> n"
  shows "Shutdown_times n s = Shutdown s
       \<and> Shutdown s =
           Inr (if closed s then s
                else s\<lparr>closed := True, q := (q s)\<lparr>is_closed := True\<rparr>,
                       pc := (if pc s = L_parked then L_quit else pc s)\<rparr>)
       \<and> after (Shutdown s) Shutdown = Shutdown s
       \<and> (\<forall>tr1 s1 tr2 s2.
             run (ShutdownCall # tr1) s = Inr s1 \<and> pc s1 = L_exited \<and> run tr2 s1 = Inr s2
             \<longrightarrow> TimerFire \<notin> set tr2)"
proof -
  have i: "inv s" using assms(1) by (rule reachable_inv)
  from assms(2) obtain m where n: "n = Suc m" by (cases n) auto
  have a: "Shutdown_times n s = Shutdown s"
    unfolding n using i by (rule Shutdown_times_Suc)
  have b: "Shutdown s =
           Inr (if closed s then s
                else s\<lparr>closed := True, q := (q s)\<lparr>is_closed := True\<rparr>,
                       pc := (if pc s = L_parked then L_quit else pc s)\<rparr>)"
    using i by (simp add: Shutdown_eq inv_def)
  have c1: "after (Shutdown s) Shutdown = Shutdown s"
    using i by (rule Shutdown_twice)
  have d1: "\<forall>tr1 s1 tr2 s2.
             run (ShutdownCall # tr1) s = Inr s1 \<and> pc s1 = L_exited \<and> run tr2 s1 = Inr s2
             \<longrightarrow> TimerFire \<notin> set tr2"
  proof (intro allI impI)
    fix tr1 s1 tr2 s2
    assume h: "run (ShutdownCall # tr1) s = Inr s1 \<and> pc s1 = L_exited \<and> run tr2 s1 = Inr s2"
    then have "inv s1" using run_inv [OF i] by blast
    with h have "\<not> running (t s1)" by (simp add: inv_def)
    with h exited_run [of tr2 s1 s2] show "TimerFire \<notin> set tr2" by blast
  qed
  from a b c1 d1 show ?thesis by blast
qed

text \<open>C8 at three calls of \<open>Shutdown\<close> after \<open>decay\<close> has parked, and at a run
  that goes on after \<open>decay\<close> has returned.\<close>

theorem C8_Shutdown_idempotent_witness:
  "run [Decay] (NewSelfCleaningHistogram [] 150) =
     Inr \<lparr>Histogram = [], c = make_chan 0, q = make_chan 0,
          d = make_chan 1, closed = False, cnt = 0, pc = L_parked, t = None, delay = 150,
          now = 0, reg_inflight = 0, done_inflight = 0, callbacks = 0\<rparr>
   \<and> (1 :: nat) \<le> 3
   \<and> Shutdown_times 3
        \<lparr>Histogram = [], c = make_chan 0, q = make_chan 0,
          d = make_chan 1, closed = False, cnt = 0, pc = L_parked, t = None, delay = 150,
          now = 0, reg_inflight = 0, done_inflight = 0, callbacks = 0\<rparr> =
     Inr \<lparr>Histogram = [], c = make_chan 0, q = \<lparr>cap = 0, buf = 0, is_closed = True\<rparr>,
          d = make_chan 1, closed = True, cnt = 0, pc = L_quit, t = None, delay = 150,
          now = 0, reg_inflight = 0, done_inflight = 0, callbacks = 0\<rparr>
   \<and> run (ShutdownCall # [Decay])
        \<lparr>Histogram = [], c = make_chan 0, q = make_chan 0,
          d = make_chan 1, closed = False, cnt = 0, pc = L_parked, t = None, delay = 150,
          now = 0, reg_inflight = 0, done_inflight = 0, callbacks = 0\<rparr> =
     Inr \<lparr>Histogram = [], c = make_chan 0, q = \<lparr>cap = 0, buf = 0, is_closed = True\<rparr>,
          d = make_chan 1, closed = True, cnt = 0, pc = L_exited, t = None, delay = 150,
          now = 0, reg_inflight = 0, done_inflight = 0, callbacks = 0\<rparr>
   \<and> run [Tick 150, Sample 3]
        \<lparr>Histogram = [], c = make_chan 0, q = \<lparr>cap = 0, buf = 0, is_closed = True\<rparr>,
          d = make_chan 1, closed = True, cnt = 0, pc = L_exited, t = None, delay = 150,
          now = 0, reg_inflight = 0, done_inflight = 0, callbacks = 0\<rparr> =
     Inr \<lparr>Histogram = [3], c = make_chan 0, q = \<lparr>cap = 0, buf = 0, is_closed = True\<rparr>,
          d = make_chan 1, closed = True, cnt = 0, pc = L_exited, t = None, delay = 150,
          now = 150, reg_inflight = 0, done_inflight = 0, callbacks = 0\<rparr>
   \<and> TimerFire \<notin> set [Tick 150, Sample 3]"
  using C8_Shutdown_idempotent [of "[Decay]" "[]" 150
     "\<lparr>Histogram = [], c = make_chan 0, q = make_chan 0,
          d = make_chan 1, closed = False, cnt = 0, pc = L_parked, t = None, delay = 150,
          now = 0, reg_inflight = 0, done_inflight = 0, callbacks = 0\<rparr>" 3]
  by (simp add: eval_defs)

text \<open>
  C8 as stated fails in its last part: with a timer armed whose delay has elapsed,
  \<open>Shutdown\<close> is called twice and returns; \<open>decay\<close> has been woken and has not yet
  stopped the timer; the timer fires and the pool is cleared.
\<close>

theorem C8_timer_fires_after_Shutdown:
  "run [Decay, RegAdd, RegSend, Sample 10, Decay, Decay, DoneAdd, DoneSend, Decay, Decay,
        Tick 150, ShutdownCall, ShutdownCall]
     (NewSelfCleaningHistogram [] 150) =
   Inr \<lparr>Histogram = [10], c = make_chan 0, q = \<lparr>cap = 0, buf = 0, is_closed = True\<rparr>,
        d = make_chan 1, closed = True, cnt = 0, pc = L_quit, t = Some (Running 150),
        delay = 150, now = 150, reg_inflight = 0, done_inflight = 0, callbacks = 0\<rparr>
   \<and> run [Decay, RegAdd, RegSend, Sample 10, Decay, Decay, DoneAdd, DoneSend, Decay, Decay,
        Tick 150, ShutdownCall, ShutdownCall, TimerFire, ClearRun]
     (NewSelfCleaningHistogram [] 150) =
   Inr \<lparr>Histogram = [], c = make_chan 0, q = \<lparr>cap = 0, buf = 0, is_closed = True\<rparr>,
        d = make_chan 1, closed = True, cnt = 0, pc = L_quit, t = Some Fired,
        delay = 150, now = 150, reg_inflight = 0, done_inflight = 0, callbacks = 0\<rparr>"
  by (simp add: eval_defs)

text \<open>
  C10, as the code has it. In every state reached by an interleaving in which
  \<open>Shutdown\<close> was called, \<open>Register\<close> and \<open>Done\<close> return without panic and without
  blocking. \<open>Register\<close> changes the live-count only (its send is dropped). \<open>Done\<close>
  changes the live-count and, when it becomes zero, either leaves one element in the
  buffer of \<open>h.d\<close> or, when \<open>decay\<close> is still parked in \<open><-h.d\<close>, resumes it.
\<close>

theorem C10_calls_after_Shutdown:
  assumes "run tr (NewSelfCleaningHistogram hs dl) = Inr s" and "ShutdownCall \<in> set tr"
  shows "Register s = Inr (s\<lparr>cnt := cnt s + 1\<rparr>)
       \<and> Done s =
           Inr (if cnt s = 1
                then (if pc s = L_parked_d then s\<lparr>cnt := 0, pc := L_arm\<rparr>
                      else s\<lparr>cnt := 0, d := (d s)\<lparr>buf := 1\<rparr>\<rparr>)
                else s\<lparr>cnt := cnt s - 1\<rparr>)"
proof -
  from after_Shutdown_reachable [OF assms]
  have i: "inv s" and np: "pc s \<noteq> L_parked" by simp_all
  have r: "Register s = Inr (s\<lparr>cnt := cnt s + 1\<rparr>)"
    using i np by (simp add: Register_def reg_add_def reg_send_eq inv_def)
  have z: "(cnt s - 1 = 0) = (cnt s = 1)" by auto
  have b: "buf (d s) = 0 \<or> buf (d s) = 1" using i by (auto simp: inv_def)
  have e: "buf (d s) = 1 \<Longrightarrow> (d s)\<lparr>buf := 1\<rparr> = d s" by (cases "d s") simp
  have dn: "Done s =
           Inr (if cnt s = 1
                then (if pc s = L_parked_d then s\<lparr>cnt := 0, pc := L_arm\<rparr>
                      else s\<lparr>cnt := 0, d := (d s)\<lparr>buf := 1\<rparr>\<rparr>)
                else s\<lparr>cnt := cnt s - 1\<rparr>)"
    using i b e by (auto simp: Done_def done_add_def done_send_eq inv_def Let_def z)
  from r dn show ?thesis by simp
qed

text \<open>C10 after \<open>Shutdown\<close> with one user registered.\<close>

theorem C10_calls_after_Shutdown_witness:
  "run [Decay, RegAdd, RegSend, Decay, ShutdownCall] (NewSelfCleaningHistogram [] 150) =
     Inr \<lparr>Histogram = [], c = make_chan 0, q = \<lparr>cap = 0, buf = 0, is_closed = True\<rparr>,
          d = make_chan 1, closed = True, cnt = 1, pc = L_recv_d, t = None, delay = 150,
          now = 0, reg_inflight = 0, done_inflight = 0, callbacks = 0\<rparr>
   \<and> ShutdownCall \<in> set [Decay, RegAdd, RegSend, Decay, ShutdownCall]
   \<and> Register
        \<lparr>Histogram = [], c = make_chan 0, q = \<lparr>cap = 0, buf = 0, is_closed = True\<rparr>,
          d = make_chan 1, closed = True, cnt = 1, pc = L_recv_d, t = None, delay = 150,
          now = 0, reg_inflight = 0, done_inflight = 0, callbacks = 0\<rparr> =
     Inr \<lparr>Histogram = [], c = make_chan 0, q = \<lparr>cap = 0, buf = 0, is_closed = True\<rparr>,
          d = make_chan 1, closed = True, cnt = 2, pc = L_recv_d, t = None, delay = 150,
          now = 0, reg_inflight = 0, done_inflight = 0, callbacks = 0\<rparr>
   \<and> Done
        \<lparr>Histogram = [], c = make_chan 0, q = \<lparr>cap = 0, buf = 0, is_closed = True\<rparr>,
          d = make_chan 1, closed = True, cnt = 1, pc = L_recv_d, t = None, delay = 150,
          now = 0, reg_inflight = 0, done_inflight = 0, callbacks = 0\<rparr> =
     Inr \<lparr>Histogram = [], c = make_chan 0, q = \<lparr>cap = 0, buf = 0, is_closed = True\<rparr>,
          d = \<lparr>cap = 1, buf = 1, is_closed = False\<rparr>, closed = True, cnt = 0,
          pc = L_recv_d, t = None, delay = 150,
          now = 0, reg_inflight = 0, done_inflight = 0, callbacks = 0\<rparr>"
  using C10_calls_after_Shutdown [of "[Decay, RegAdd, RegSend, Decay, ShutdownCall]" "[]" 150
     "\<lparr>Histogram = [], c = make_chan 0, q = \<lparr>cap = 0, buf = 0, is_closed = True\<rparr>,
          d = make_chan 1, closed = True, cnt = 1, pc = L_recv_d, t = None, delay = 150,
          now = 0, reg_inflight = 0, done_inflight = 0, callbacks = 0\<rparr>"]
  by (simp add: eval_defs)

text \<open>
  C10 as stated fails where \<open>Shutdown\<close> found \<open>decay\<close> parked in \<open><-h.d\<close>: the
  \<open>Done\<close> that follows resumes \<open>decay\<close>, whose next step arms a timer.
\<close>

theorem C10_Done_resumes_decay:
  "view pc (run [Decay, RegAdd, RegSend, Decay, Decay, ShutdownCall]
              (NewSelfCleaningHistogram [] 150)) = Inr L_parked_d
   \<and> view pc (after (run [Decay, RegAdd, RegSend, Decay, Decay, ShutdownCall]
                        (NewSelfCleaningHistogram [] 150)) Done) = Inr L_arm
   \<and> view t (after (run [Decay, RegAdd, RegSend, Decay, Decay, ShutdownCall]
                        (NewSelfCleaningHistogram [] 150)) Done) = Inr None
   \<and> view t (after (after (run [Decay, RegAdd, RegSend, Decay, Decay, ShutdownCall]
                        (NewSelfCleaningHistogram [] 150)) Done) (step Decay))
       = Inr (Some (Running 150))"
  by (simp add: view_def after_def Done_def eval_defs)

subsection \<open>The activity channel\<close>

text \<open>
  C7, as the code has it. The constructor makes the activity channel \<open>h.c\<close> unbuffered
  (capacity 0) and the drained channel \<open>h.d\<close> with capacity 1. In every reachable state
  \<open>h.c\<close> is empty, and \<open>Register\<close> returns without blocking: its pulse is received
  when \<open>decay\<close> is parked in its \<open>select\<close> at that moment and is dropped otherwise.
\<close>

theorem C7_activity_channel_unbuffered:
  assumes "run tr (NewSelfCleaningHistogram hs dl) = Inr s"
  shows "c (NewSelfCleaningHistogram hs dl) = make_chan 0
       \<and> d (NewSelfCleaningHistogram hs dl) = make_chan 1
       \<and> c s = make_chan 0
       \<and> Register s =
           Inr (if pc s = L_parked then s\<lparr>cnt := cnt s + 1, pc := L_stop\<rparr>
                else s\<lparr>cnt := cnt s + 1\<rparr>)"
proof -
  have i: "inv s" using assms by (rule reachable_inv)
  then have cs: "c s = make_chan 0" by (cases "c s") (simp add: inv_def make_chan_def)
  have "Register s =
           Inr (if pc s = L_parked then s\<lparr>cnt := cnt s + 1, pc := L_stop\<rparr>
                else s\<lparr>cnt := cnt s + 1\<rparr>)"
    using i by (simp add: Register_def reg_add_def reg_send_eq inv_def)
  with cs show ?thesis by (simp add: NewSelfCleaningHistogram_def)
qed

text \<open>C7 with \<open>decay\<close> parked in its \<open>select\<close>.\<close>

theorem C7_activity_channel_unbuffered_witness:
  "run [Decay] (NewSelfCleaningHistogram [] 150) =
     Inr \<lparr>Histogram = [], c = make_chan 0, q = make_chan 0,
          d = make_chan 1, closed = False, cnt = 0, pc = L_parked, t = None, delay = 150,
          now = 0, reg_inflight = 0, done_inflight = 0, callbacks = 0\<rparr>
   \<and> Register
       \<lparr>Histogram = [], c = make_chan 0, q = make_chan 0,
          d = make_chan 1, closed = False, cnt = 0, pc = L_parked, t = None, delay = 150,
          now = 0, reg_inflight = 0, done_inflight = 0, callbacks = 0\<rparr> =
     Inr \<lparr>Histogram = [], c = make_chan 0, q = make_chan 0,
          d = make_chan 1, closed = False, cnt = 1, pc = L_stop, t = None, delay = 150,
          now = 0, reg_inflight = 0, done_inflight = 0, callbacks = 0\<rparr>"
  using C7_activity_channel_unbuffered [of "[Decay]" "[]" 150
     "\<lparr>Histogram = [], c = make_chan 0, q = make_chan 0,
          d = make_chan 1, closed = False, cnt = 0, pc = L_parked, t = None, delay = 150,
          now = 0, reg_inflight = 0, done_inflight = 0, callbacks = 0\<rparr>"]
  by (simp add: eval_defs)

text \<open>
  C7 as stated fails: the capacity of \<open>h.c\<close> is 0, and a \<open>Register\<close> issued before
  \<open>decay\<close> has parked leaves nothing in the channel; \<open>decay\<close> then parks in its
  \<open>select\<close> as if no \<open>Register\<close> had happened.
\<close>

theorem C7_pulse_not_buffered:
  "cap (c (NewSelfCleaningHistogram [] 150)) = 0
   \<and> Register (NewSelfCleaningHistogram [] 150) =
     Inr \<lparr>Histogram = [], c = \<lparr>cap = 0, buf = 0, is_closed = False\<rparr>, q = make_chan 0,
          d = make_chan 1, closed = False, cnt = 1, pc = L_select, t = None, delay = 150,
          now = 0, reg_inflight = 0, done_inflight = 0, callbacks = 0\<rparr>
   \<and> after (Register (NewSelfCleaningHistogram [] 150)) (step Decay) =
     Inr \<lparr>Histogram = [], c = \<lparr>cap = 0, buf = 0, is_closed = False\<rparr>, q = make_chan 0,
          d = make_chan 1, closed = False, cnt = 1, pc = L_parked, t = None, delay = 150,
          now = 0, reg_inflight = 0, done_inflight = 0, callbacks = 0\<rparr>"
  by (simp add: after_def Register_def eval_defs)

subsection \<open>Clearing after the delay\<close>













subsection \<open>Reader and Writer\<close>

lemma Reader_Close_times_closed:
  "Reader_closed mr \<Longrightarrow> Reader_Close_times n mr w = (replicate n None, mr, w)"
  by (induction n) (cases w, simp)+

lemma Writer_Close_times_closed:
  "Writer_closed mw \<Longrightarrow> Writer_Close_times n mw w = (replicate n None, mw, w)"
  by (induction n) (cases w, simp)+

lemma Reader_Close_first:
  "\<not> Reader_closed mr \<Longrightarrow>
   Reader_Close mr (s, x) =
     (fst (case Close_m (Reader_Reader mr) of Some cl \<Rightarrow> cl s | None \<Rightarrow> (None, s)),
      mr\<lparr>Reader_closed := True\<rparr>,
      (snd (case Close_m (Reader_Reader mr) of Some cl \<Rightarrow> cl s | None \<Rightarrow> (None, s)),
       (case as_Registrar (Reader_h mr) of Some r \<Rightarrow> Done_m r x | None \<Rightarrow> x)))"
  by (simp add: Let_def split: option.splits prod.splits)

lemma Writer_Close_first:
  "\<not> Writer_closed mw \<Longrightarrow>
   Writer_Close mw (s, x) =
     (fst (case WClose_m (Writer_Writer mw) of Some cl \<Rightarrow> cl s | None \<Rightarrow> (None, s)),
      mw\<lparr>Writer_closed := True\<rparr>,
      (snd (case WClose_m (Writer_Writer mw) of Some cl \<Rightarrow> cl s | None \<Rightarrow> (None, s)),
       (case as_Registrar (Writer_h mw) of Some r \<Rightarrow> Done_m r x | None \<Rightarrow> x)))"
  by (simp add: Let_def split: option.splits prod.splits)

text \<open>
  C3. For a \<open>Reader\<close> and a \<open>Writer\<close> that have not been closed and every \<open>n \<ge> 1\<close>,
  \<open>n\<close> calls of \<open>Close\<close> leave the histogram as one call of \<open>Done()\<close> leaves it (as
  it was, when it is nil or no \<open>Registrar\<close>) and the stream as one call of its \<open>Close\<close>
  leaves it (as it was, when it is no \<open>io.Closer\<close>); the first call returns what the
  stream's \<open>Close\<close> returned (nil when there is none), every later call returns nil.
  This holds for every implementation of the two interfaces, the counting ones
  included.
\<close>

theorem C3_Close_once:
  assumes "1 \<le> n" and "\<not> Reader_closed mr" and "\<not> Writer_closed mw"
  shows "Reader_Close_times n mr (s, x) =
     (fst (case Close_m (Reader_Reader mr) of Some cl \<Rightarrow> cl s | None \<Rightarrow> (None, s))
        # replicate (n - 1) None,
      mr\<lparr>Reader_closed := True\<rparr>,
      (snd (case Close_m (Reader_Reader mr) of Some cl \<Rightarrow> cl s | None \<Rightarrow> (None, s)),
       (case as_Registrar (Reader_h mr) of Some r \<Rightarrow> Done_m r x | None \<Rightarrow> x)))
   \<and> Writer_Close_times n mw (s, x) =
     (fst (case WClose_m (Writer_Writer mw) of Some cl \<Rightarrow> cl s | None \<Rightarrow> (None, s))
        # replicate (n - 1) None,
      mw\<lparr>Writer_closed := True\<rparr>,
      (snd (case WClose_m (Writer_Writer mw) of Some cl \<Rightarrow> cl s | None \<Rightarrow> (None, s)),
       (case as_Registrar (Writer_h mw) of Some r \<Rightarrow> Done_m r x | None \<Rightarrow> x)))"
proof -
  from assms(1) obtain m where n: "n = Suc m" by (cases n) auto
  have r: "Reader_closed (mr\<lparr>Reader_closed := True\<rparr>)" by simp
  have w: "Writer_closed (mw\<lparr>Writer_closed := True\<rparr>)" by simp
  show ?thesis
    unfolding n
    by (simp only: Reader_Close_times.simps Writer_Close_times.simps
          Reader_Close_first [OF assms(2)] Writer_Close_first [OF assms(3)]
          Reader_Close_times_closed [OF r] Writer_Close_times_closed [OF w]
          prod.case diff_Suc_1)
qed

text \<open>C3 at three calls, on collaborators that count: one \<open>Done\<close>, one \<open>Close\<close> of a
  stream whose \<open>Close\<close> fails, none for a stream that is no \<open>io.Closer\<close>.\<close>

theorem C3_Close_once_witness:
  "(1 :: nat) \<le> 3
   \<and> \<not> Reader_closed (fst (NewReader (fixed_Reader (0, None) (Some (Some (Error ''boom''))))
                            (Some (tally_Histogram True)) tally0))
   \<and> \<not> Writer_closed (fst (NewWriter (fixed_Writer (0, None) None)
                            (Some (tally_Histogram True)) tally0))
   \<and> Reader_Close_times 3
        (fst (NewReader (fixed_Reader (0, None) (Some (Some (Error ''boom''))))
                (Some (tally_Histogram True)) tally0))
        (0, snd (NewReader (fixed_Reader (0, None) (Some (Some (Error ''boom''))))
                (Some (tally_Histogram True)) tally0)) =
      ([Some (Error ''boom''), None, None],
       \<lparr>Reader_Reader = fixed_Reader (0, None) (Some (Some (Error ''boom''))),
        Reader_h = Some (tally_Histogram True), Reader_closed = True\<rparr>,
       (1, \<lparr>updates = [], registers = 1, dones = 1\<rparr>))
   \<and> Writer_Close_times 3
        (fst (NewWriter (fixed_Writer (0, None) None) (Some (tally_Histogram True)) tally0))
        (0, snd (NewWriter (fixed_Writer (0, None) None)
                   (Some (tally_Histogram True)) tally0)) =
      ([None, None, None],
       \<lparr>Writer_Writer = fixed_Writer (0, None) None,
        Writer_h = Some (tally_Histogram True), Writer_closed = True\<rparr>,
       (0, \<lparr>updates = [], registers = 1, dones = 1\<rparr>))"
  using C3_Close_once [of 3
      "fst (NewReader (fixed_Reader (0, None) (Some (Some (Error ''boom''))))
                            (Some (tally_Histogram True)) tally0)"
      "fst (NewWriter (fixed_Writer (0, None) None) (Some (tally_Histogram True)) tally0)"
      0 "snd (NewReader (fixed_Reader (0, None) (Some (Some (Error ''boom''))))
                (Some (tally_Histogram True)) tally0)"]
  by (simp add: NewReader_def NewWriter_def as_Registrar_def tally_Histogram_def
        tally_Registrar_def tally0_def fixed_Reader_def fixed_Writer_def eval_nat_numeral)

text \<open>
  C4, as the code has it. With a non-nil histogram, \<open>Read\<close> and \<open>Write\<close> return what
  the delegated call returned, and insert one sample, the nanoseconds between the two
  clock readings, exactly when the delegated call moved more than zero bytes, whatever
  error it returned.
\<close>

theorem C4_sample_iff_bytes_moved:
  "Reader_Read \<lparr>Reader_Reader = rd, Reader_h = Some m, Reader_closed = cl\<rparr> p t0 t1 (s, x) =
     Inr (fst (Read_m rd p s),
          (snd (Read_m rd p s),
           if 0 < fst (snd (fst (Read_m rd p s))) then Update_m m (Sub t1 t0) x else x))
   \<and> Writer_Write \<lparr>Writer_Writer = wr, Writer_h = Some m, Writer_closed = cl\<rparr> p t0 t1 (s, x) =
     Inr (fst (Write_m wr p s),
          (snd (Write_m wr p s),
           if 0 < fst (fst (Write_m wr p s)) then Update_m m (Sub t1 t0) x else x))"
  by (simp add: call_Update_def split: prod.splits)

text \<open>
  C4 as stated fails in its last part: a \<open>Read\<close> that returns 5 bytes together with an
  error, and a \<open>Write\<close> that does, each record a sample (250 ns).
\<close>

theorem C4_sample_despite_error:
  "Reader_Read
     (fst (NewReader (fixed_Reader (5, Some (Error ''EOF'')) None)
             (Some (tally_Histogram False)) tally0))
     [0, 0, 0, 0, 0, 0, 0, 0] 100 350 (0, tally0) =
   Inr (([0, 0, 0, 0, 0, 0, 0, 0], 5, Some (Error ''EOF'')),
        (0, \<lparr>updates = [250], registers = 0, dones = 0\<rparr>))
   \<and> Writer_Write
     (fst (NewWriter (fixed_Writer (5, Some (Error ''short write'')) None)
             (Some (tally_Histogram False)) tally0))
     [0, 0, 0, 0, 0, 0, 0, 0] 100 350 (0, tally0) =
   Inr ((5, Some (Error ''short write'')),
        (0, \<lparr>updates = [250], registers = 0, dones = 0\<rparr>))"
  by (simp add: NewReader_def NewWriter_def as_Registrar_def tally_Histogram_def
        tally0_def fixed_Reader_def fixed_Writer_def call_Update_def Sub_def)

lemma Reader_Close_times_nil:
  "Reader_h mr = None \<Longrightarrow> snd (snd (snd (Reader_Close_times n mr (s, x)))) = x"
proof (induction n arbitrary: mr s x)
  case 0
  then show ?case by simp
next
  case (Suc n)
  obtain e mr1 s1 x1 where c: "Reader_Close mr (s, x) = (e, mr1, (s1, x1))"
    by (metis prod.exhaust)
  from c Suc.prems have "Reader_h mr1 = None \<and> x1 = x"
    by (auto simp: as_Registrar_def Let_def split: if_splits option.splits prod.splits)
  with Suc.IH [of mr1 s1 x1] c show ?case
    by (simp add: split_beta del: Reader_Close.simps)
qed

lemma Writer_Close_times_nil:
  "Writer_h mw = None \<Longrightarrow> snd (snd (snd (Writer_Close_times n mw (s, x)))) = x"
proof (induction n arbitrary: mw s x)
  case 0
  then show ?case by simp
next
  case (Suc n)
  obtain e mw1 s1 x1 where c: "Writer_Close mw (s, x) = (e, mw1, (s1, x1))"
    by (metis prod.exhaust)
  from c Suc.prems have "Writer_h mw1 = None \<and> x1 = x"
    by (auto simp: as_Registrar_def Let_def split: if_splits option.splits prod.splits)
  with Suc.IH [of mw1 s1 x1] c show ?case
    by (simp add: split_beta del: Writer_Close.simps)
qed

text \<open>
  C9. With a nil histogram nothing panics, on a wrapper that has been closed as on one
  that has not: the constructors register nothing (the histogram behind the nil
  interface is left as it is), every \<open>Read\<close> and \<open>Write\<close> returns what the delegated
  call returned and inserts no sample, \<open>Close\<close> calls no \<open>Done()\<close> and, on its first
  call, closes the stream when it is an \<open>io.Closer\<close>; any number of calls of \<open>Close\<close>
  leave the histogram as it is.
\<close>

theorem C9_nil_histogram:
  "NewReader rd None x = (\<lparr>Reader_Reader = rd, Reader_h = None, Reader_closed = False\<rparr>, x)
   \<and> Reader_Read \<lparr>Reader_Reader = rd, Reader_h = None, Reader_closed = cl\<rparr> p t0 t1 (s, x) =
       Inr (fst (Read_m rd p s), (snd (Read_m rd p s), x))
   \<and> Reader_Close \<lparr>Reader_Reader = rd, Reader_h = None, Reader_closed = cl\<rparr> (s, x) =
       (if cl then (None, \<lparr>Reader_Reader = rd, Reader_h = None, Reader_closed = True\<rparr>, (s, x))
        else
         (fst (case Close_m rd of Some f \<Rightarrow> f s | None \<Rightarrow> (None, s)),
          \<lparr>Reader_Reader = rd, Reader_h = None, Reader_closed = True\<rparr>,
          (snd (case Close_m rd of Some f \<Rightarrow> f s | None \<Rightarrow> (None, s)), x)))
   \<and> snd (snd (snd (Reader_Close_times n
         \<lparr>Reader_Reader = rd, Reader_h = None, Reader_closed = cl\<rparr> (s, x)))) = x
   \<and> NewWriter wr None x = (\<lparr>Writer_Writer = wr, Writer_h = None, Writer_closed = False\<rparr>, x)
   \<and> Writer_Write \<lparr>Writer_Writer = wr, Writer_h = None, Writer_closed = cl\<rparr> p t0 t1 (s, x) =
       Inr (fst (Write_m wr p s), (snd (Write_m wr p s), x))
   \<and> Writer_Close \<lparr>Writer_Writer = wr, Writer_h = None, Writer_closed = cl\<rparr> (s, x) =
       (if cl then (None, \<lparr>Writer_Writer = wr, Writer_h = None, Writer_closed = True\<rparr>, (s, x))
        else
         (fst (case WClose_m wr of Some f \<Rightarrow> f s | None \<Rightarrow> (None, s)),
          \<lparr>Writer_Writer = wr, Writer_h = None, Writer_closed = True\<rparr>,
          (snd (case WClose_m wr of Some f \<Rightarrow> f s | None \<Rightarrow> (None, s)), x)))
   \<and> snd (snd (snd (Writer_Close_times n
         \<lparr>Writer_Writer = wr, Writer_h = None, Writer_closed = cl\<rparr> (s, x)))) = x"
proof -
  have r: "snd (snd (snd (Reader_Close_times n
         \<lparr>Reader_Reader = rd, Reader_h = None, Reader_closed = cl\<rparr> (s, x)))) = x"
    by (rule Reader_Close_times_nil) simp
  have w: "snd (snd (snd (Writer_Close_times n
         \<lparr>Writer_Writer = wr, Writer_h = None, Writer_closed = cl\<rparr> (s, x)))) = x"
    by (rule Writer_Close_times_nil) simp
  show ?thesis
    unfolding r w
    by (simp add: NewReader_def NewWriter_def as_Registrar_def Let_def
        split: option.splits prod.splits)
qed

end
